theory Spec2Isabelle
  imports Main "HOL-Library.Sublist" "HOL-Library.Multiset"
begin


section \<open>JavaScript values used by the commands\<close>

text \<open>
  Strings are \<open>string\<close>. An optional string property (\<open>undefined\<close> when absent) is a
  \<open>string option\<close>; it is falsy when absent or empty.
\<close>

datatype error =
    Error string      \<comment> \<open>\<open>new Error(message)\<close> thrown by the commands themselves\<close>
  | SyntaxError       \<comment> \<open>thrown by \<open>JSON.parse\<close>\<close>
  | TypeError         \<comment> \<open>thrown by \<open>Object.entries(null)\<close>\<close>
  | Rejected string   \<comment> \<open>a rejected promise of a collaborator (AWS, Kubernetes, file system)\<close>

definition truthy_str :: "string option \<Rightarrow> bool" where
  "truthy_str x = (case x of None \<Rightarrow> False | Some s \<Rightarrow> s \<noteq> [])"

definition template_str :: "string option \<Rightarrow> string" where
  \<comment> \<open>\<open>${x}\<close> inside a template literal\<close>
  "template_str x = (case x of None \<Rightarrow> ''undefined'' | Some s \<Rightarrow> s)"

subsection \<open>The namespace-name pattern \<open>/^[a-z][a-z0-9\-]*$/i\<close>\<close>

text \<open>
  A character class is a list of ranges and single characters. Under the \<open>i\<close> flag a
  character matches the class when its canonical form equals the canonical form of a
  member of the class; the canonical form is the upper-case letter for \<open>a\<close>..\<open>z\<close>, and a
  character outside ASCII never canonicalises to an ASCII one.
\<close>

datatype class_atom = Range char char | Single char

definition Canonicalize :: "char \<Rightarrow> char" where
  "Canonicalize c =
     (if (97::nat) \<le> of_char c \<and> of_char c \<le> (122::nat)
      then char_of (of_char c - (32::nat)) else c)"

fun atom_chars :: "class_atom \<Rightarrow> char list" where
  "atom_chars (Range lo hi) = map char_of [of_char lo ..< Suc (of_char hi)]"
| "atom_chars (Single c) = [c]"

definition class_matches_i :: "class_atom list \<Rightarrow> char \<Rightarrow> bool" where
  "class_matches_i atoms c =
     (\<exists>m \<in> set (concat (map atom_chars atoms)). Canonicalize m = Canonicalize c)"

definition first_class :: "class_atom list" where
  "first_class = [Range (CHR ''a'') (CHR ''z'')]"

definition rest_class :: "class_atom list" where
  "rest_class = [Range (CHR ''a'') (CHR ''z''), Range (CHR ''0'') (CHR ''9''), Single (CHR ''-'')]"

definition namespace_pattern_match :: "string \<Rightarrow> bool" where
  \<comment> \<open>\<open>^\<close> one character of the first class, then any number of the second, then \<open>$\<close>\<close>
  "namespace_pattern_match s =
     (case s of [] \<Rightarrow> False
      | c # cs \<Rightarrow> class_matches_i first_class c \<and> list_all (class_matches_i rest_class) cs)"

definition namespace_name_invalid :: "string \<Rightarrow> bool" where
  \<comment> \<open>\<open>!namespaceName || !namespaceName.match(...)\<close>\<close>
  "namespace_name_invalid namespaceName =
     (namespaceName = [] \<or> \<not> namespace_pattern_match namespaceName)"

subsection \<open>\<open>JSON.parse\<close>\<close>

text \<open>
  \<open>JSON.parse\<close> is part of the language runtime. It is modelled by a lexer and a
  pushdown recogniser for the JSON grammar, both reading one symbol at a time. A numeral
  is kept as its text: the number it denotes is a floating-point value, whose only uses
  here (truthiness and conversion to a string) are left to the environment. A
  \<open>\u\<close> escape below 0100 is decoded; one above has no \<open>char\<close> and is kept as the six
  characters of the escape (it can only change the text shown between the parentheses of
  a log line, never whether a key is empty or contains \<open>name\<close>).
\<close>

datatype json =
    JNull | JBool bool | JNumber string | JString string
  | JArray "json list" | JObject "(string \<times> json) list"

datatype token =
    TLBrace | TRBrace | TLBracket | TRBracket | TColon | TComma
  | TString string | TNumber string | TTrue | TFalse | TNull

datatype lexstate =
    Idle | InString string | InEscape string | InUnicode string string
  | InNumber string | InLiteral string

definition is_digit :: "char \<Rightarrow> bool" where
  "is_digit c = (c \<in> set ''0123456789'')"

definition is_hex :: "char \<Rightarrow> bool" where
  "is_hex c = (c \<in> set ''0123456789abcdefABCDEF'')"

definition is_lower_letter :: "char \<Rightarrow> bool" where
  "is_lower_letter c = (c \<in> set ''abcdefghijklmnopqrstuvwxyz'')"

definition is_json_space :: "char \<Rightarrow> bool" where
  "is_json_space c = (c = CHR '' '' \<or> c = CHR 0x09 \<or> c = CHR 0x0A \<or> c = CHR 0x0D)"

definition hex_value :: "char \<Rightarrow> nat" where
  "hex_value c =
     (let n = of_char c in
      if is_digit c then n - 48 else if 97 \<le> n then n - 87 else n - 55)"

definition decode_unicode :: "string \<Rightarrow> string" where
  "decode_unicode hex =
     (let n = foldl (\<lambda>a c. 16 * a + hex_value c) 0 hex in
      if n < 256 then [char_of n] else CHR 0x5C # CHR ''u'' # hex)"

definition valid_number :: "string \<Rightarrow> bool" where
  \<comment> \<open>\<open>-? (0 | [1-9][0-9]*) (. [0-9]+)? ([eE] [+-]? [0-9]+)?\<close>\<close>
  "valid_number s =
     (let s1 = (case s of [] \<Rightarrow> [] | c # cs \<Rightarrow> if c = CHR ''-'' then cs else s);
          ip = takeWhile is_digit s1;
          s2 = dropWhile is_digit s1;
          int_ok = (ip \<noteq> [] \<and> (hd ip \<noteq> CHR ''0'' \<or> length ip = 1));
          frac_ok = (case s2 of [] \<Rightarrow> True
                     | c # r \<Rightarrow> c \<noteq> CHR ''.'' \<or> takeWhile is_digit r \<noteq> []);
          s3 = (case s2 of [] \<Rightarrow> []
                | c # r \<Rightarrow> if c = CHR ''.'' then dropWhile is_digit r else s2);
          exp_ok = (case s3 of [] \<Rightarrow> True
                    | e # r \<Rightarrow> (e = CHR ''e'' \<or> e = CHR ''E'') \<and>
                        (let r' = (case r of [] \<Rightarrow> []
                                   | g # r2 \<Rightarrow> if g = CHR ''+'' \<or> g = CHR ''-'' then r2 else r)
                         in r' \<noteq> [] \<and> list_all is_digit r'))
      in int_ok \<and> frac_ok \<and> exp_ok)"

definition literal_token :: "string \<Rightarrow> token option" where
  "literal_token w =
     (if w = ''true'' then Some TTrue else if w = ''false'' then Some TFalse
      else if w = ''null'' then Some TNull else None)"

definition idle_step :: "char \<Rightarrow> (lexstate \<times> token list) option" where
  "idle_step c =
     (if is_json_space c then Some (Idle, [])
      else if c = CHR ''{'' then Some (Idle, [TLBrace])
      else if c = CHR ''}'' then Some (Idle, [TRBrace])
      else if c = CHR ''['' then Some (Idle, [TLBracket])
      else if c = CHR '']'' then Some (Idle, [TRBracket])
      else if c = CHR '':'' then Some (Idle, [TColon])
      else if c = CHR '','' then Some (Idle, [TComma])
      else if c = CHR 0x22 then Some (InString [], [])
      else if c = CHR ''-'' \<or> is_digit c then Some (InNumber [c], [])
      else if is_lower_letter c then Some (InLiteral [c], [])
      else None)"

definition after_token :: "token option \<Rightarrow> char \<Rightarrow> (lexstate \<times> token list) option" where
  \<comment> \<open>a numeral or literal has ended in front of \<open>c\<close>\<close>
  "after_token t c =
     (case t of None \<Rightarrow> None
      | Some tok \<Rightarrow> (case idle_step c of None \<Rightarrow> None
                      | Some (st, ts) \<Rightarrow> Some (st, tok # ts)))"

fun lex_step :: "lexstate \<Rightarrow> char \<Rightarrow> (lexstate \<times> token list) option" where
  "lex_step Idle c = idle_step c"
| "lex_step (InString acc) c =
     (if c = CHR 0x22 then Some (Idle, [TString acc])
      else if c = CHR 0x5C then Some (InEscape acc, [])
      else if (of_char c :: nat) < 32 then None
      else Some (InString (acc @ [c]), []))"
| "lex_step (InEscape acc) c =
     (if c = CHR 0x22 \<or> c = CHR 0x5C \<or> c = CHR ''/'' then Some (InString (acc @ [c]), [])
      else if c = CHR ''b'' then Some (InString (acc @ [CHR 0x08]), [])
      else if c = CHR ''f'' then Some (InString (acc @ [CHR 0x0C]), [])
      else if c = CHR ''n'' then Some (InString (acc @ [CHR 0x0A]), [])
      else if c = CHR ''r'' then Some (InString (acc @ [CHR 0x0D]), [])
      else if c = CHR ''t'' then Some (InString (acc @ [CHR 0x09]), [])
      else if c = CHR ''u'' then Some (InUnicode acc [], [])
      else None)"
| "lex_step (InUnicode acc hex) c =
     (if \<not> is_hex c then None
      else if length hex = 3 then Some (InString (acc @ decode_unicode (hex @ [c])), [])
      else Some (InUnicode acc (hex @ [c]), []))"
| "lex_step (InNumber acc) c =
     (if c \<in> set ''0123456789+-.eE'' then Some (InNumber (acc @ [c]), [])
      else after_token (if valid_number acc then Some (TNumber acc) else None) c)"
| "lex_step (InLiteral acc) c =
     (if is_lower_letter c then Some (InLiteral (acc @ [c]), [])
      else after_token (literal_token acc) c)"

fun lex_end :: "lexstate \<Rightarrow> token list option" where
  "lex_end Idle = Some []"
| "lex_end (InNumber acc) = (if valid_number acc then Some [TNumber acc] else None)"
| "lex_end (InLiteral acc) = map_option (\<lambda>t. [t]) (literal_token acc)"
| "lex_end _ = None"

fun lex_from :: "lexstate \<Rightarrow> string \<Rightarrow> token list option" where
  "lex_from st [] = lex_end st"
| "lex_from st (c # cs) =
     (case lex_step st c of None \<Rightarrow> None
      | Some (st', ts) \<Rightarrow> map_option ((@) ts) (lex_from st' cs))"

datatype frame =
    ArrFrame "json list"                    \<comment> \<open>inside \<open>[\<close>: the elements read so far\<close>
  | ObjFrame "(string \<times> json) list" string  \<comment> \<open>inside \<open>{\<close>: the members so far, the current key\<close>

datatype pstate =
    NeedValue "frame list"
  | NeedValueOrClose "frame list"           \<comment> \<open>just after \<open>[\<close>\<close>
  | NeedKeyOrClose "frame list"             \<comment> \<open>just after \<open>{\<close>\<close>
  | NeedKey "(string \<times> json) list" "frame list"
  | NeedColon "(string \<times> json) list" string "frame list"
  | AfterValue "frame list"
  | Finished json

fun complete :: "json \<Rightarrow> frame list \<Rightarrow> pstate" where
  "complete v [] = Finished v"
| "complete v (ArrFrame es # st) = AfterValue (ArrFrame (es @ [v]) # st)"
| "complete v (ObjFrame ms k # st) = AfterValue (ObjFrame (ms @ [(k, v)]) k # st)"

fun start_value :: "frame list \<Rightarrow> token \<Rightarrow> pstate option" where
  "start_value st TLBracket = Some (NeedValueOrClose st)"
| "start_value st TLBrace = Some (NeedKeyOrClose st)"
| "start_value st (TString s) = Some (complete (JString s) st)"
| "start_value st (TNumber n) = Some (complete (JNumber n) st)"
| "start_value st TTrue = Some (complete (JBool True) st)"
| "start_value st TFalse = Some (complete (JBool False) st)"
| "start_value st TNull = Some (complete JNull st)"
| "start_value st _ = None"

fun parse_step :: "pstate \<Rightarrow> token \<Rightarrow> pstate option" where
  "parse_step (NeedValue st) t = start_value st t"
| "parse_step (NeedValueOrClose st) t =
     (if t = TRBracket then Some (complete (JArray []) st) else start_value (ArrFrame [] # st) t)"
| "parse_step (NeedKeyOrClose st) t =
     (case t of TRBrace \<Rightarrow> Some (complete (JObject []) st)
      | TString k \<Rightarrow> Some (NeedColon [] k st)
      | _ \<Rightarrow> None)"
| "parse_step (NeedKey ms st) t = (case t of TString k \<Rightarrow> Some (NeedColon ms k st) | _ \<Rightarrow> None)"
| "parse_step (NeedColon ms k st) t = (if t = TColon then Some (NeedValue (ObjFrame ms k # st)) else None)"
| "parse_step (AfterValue []) t = None"
| "parse_step (AfterValue (ArrFrame es # st)) t =
     (if t = TComma then Some (NeedValue (ArrFrame es # st))
      else if t = TRBracket then Some (complete (JArray es) st) else None)"
| "parse_step (AfterValue (ObjFrame ms k # st)) t =
     (if t = TComma then Some (NeedKey ms st)
      else if t = TRBrace then Some (complete (JObject ms) st) else None)"
| "parse_step (Finished v) t = None"

fun parse_from :: "pstate \<Rightarrow> token list \<Rightarrow> json option" where
  "parse_from (Finished v) [] = Some v"
| "parse_from _ [] = None"
| "parse_from ps (t # ts) = (case parse_step ps t of None \<Rightarrow> None | Some ps' \<Rightarrow> parse_from ps' ts)"

definition JSON_parse :: "string \<Rightarrow> json option" where
  \<comment> \<open>\<open>None\<close> is the \<open>SyntaxError\<close>\<close>
  "JSON_parse text = (case lex_from Idle text of None \<Rightarrow> None | Some ts \<Rightarrow> parse_from (NeedValue []) ts)"

subsection \<open>\<open>Object.entries\<close>, truthiness and string conversion\<close>

fun show_nat :: "nat \<Rightarrow> string" where
  "show_nat n = (if n < 10 then [char_of (48 + n)] else show_nat (n div 10) @ [char_of (48 + n mod 10)])"

definition read_nat :: "string \<Rightarrow> nat" where
  "read_nat s = foldl (\<lambda>a c. 10 * a + (of_char c - 48)) 0 s"

definition is_array_index :: "string \<Rightarrow> bool" where
  \<comment> \<open>the canonical numeral of an integer below \<open>2^32 - 1\<close>\<close>
  "is_array_index k =
     (k \<noteq> [] \<and> list_all is_digit k \<and> (hd k \<noteq> CHR ''0'' \<or> length k = 1) \<and> read_nat k < 4294967295)"

definition put_property :: "(string \<times> json) list \<Rightarrow> string \<times> json \<Rightarrow> (string \<times> json) list" where
  \<comment> \<open>a repeated key keeps its first position and takes the last value\<close>
  "put_property ps kv =
     (if fst kv \<in> fst ` set ps then map (\<lambda>p. if fst p = fst kv then kv else p) ps else ps @ [kv])"

definition own_properties :: "(string \<times> json) list \<Rightarrow> (string \<times> json) list" where
  \<comment> \<open>array indices first, ascending; then the other keys in order of creation\<close>
  "own_properties ms =
     (let ps = foldl put_property [] ms in
      sort_key (\<lambda>p. read_nat (fst p)) (filter (\<lambda>p. is_array_index (fst p)) ps)
      @ filter (\<lambda>p. \<not> is_array_index (fst p)) ps)"

definition indexed :: "json list \<Rightarrow> (string \<times> json) list" where
  "indexed xs = zip (map show_nat [0 ..< length xs]) xs"

fun Object_entries :: "json \<Rightarrow> error + (string \<times> json) list" where
  "Object_entries JNull = Inl TypeError"
| "Object_entries (JBool b) = Inr []"
| "Object_entries (JNumber n) = Inr []"
| "Object_entries (JString s) = Inr (indexed (map (\<lambda>c. JString [c]) s))"
| "Object_entries (JArray xs) = Inr (indexed xs)"
| "Object_entries (JObject ms) = Inr (own_properties ms)"

definition toLowerCase :: "string \<Rightarrow> string" where
  \<comment> \<open>on ASCII letters; no other character lower-cases to a letter of \<open>name\<close>\<close>
  "toLowerCase s =
     map (\<lambda>c. if (65::nat) \<le> of_char c \<and> of_char c \<le> (90::nat) then char_of (of_char c + (32::nat)) else c) s"

fun js_truthy :: "(string \<Rightarrow> string) \<Rightarrow> json \<Rightarrow> bool" where
  "js_truthy num JNull = False"
| "js_truthy num (JBool b) = b"
| "js_truthy num (JNumber n) = (num n \<noteq> ''0'')"  \<comment> \<open>only \<open>+0\<close> and \<open>-0\<close> print as \<open>0\<close>\<close>
| "js_truthy num (JString s) = (s \<noteq> [])"
| "js_truthy num (JArray xs) = True"
| "js_truthy num (JObject ms) = True"

fun join_comma :: "string list \<Rightarrow> string" where
  "join_comma [] = []"
| "join_comma [x] = x"
| "join_comma (x # y # zs) = x @ '','' @ join_comma (y # zs)"

fun js_to_string :: "(string \<Rightarrow> string) \<Rightarrow> json \<Rightarrow> string" where
  "js_to_string num JNull = ''null''"
| "js_to_string num (JBool b) = (if b then ''true'' else ''false'')"
| "js_to_string num (JNumber n) = num n"
| "js_to_string num (JString s) = s"
| "js_to_string num (JArray xs) = join_comma (map (\<lambda>x. if x = JNull then [] else js_to_string num x) xs)"
| "js_to_string num (JObject ms) = ''[object Object]''"

section \<open>Collaborators: CloudFormation, Kubernetes, the logger\<close>

record stack_output =
  OutputKey :: "string option"
  OutputValue :: "string option"

record stack =
  StackStatus :: string
  Outputs :: "stack_output list option"

record stack_event =
  EventId :: string
  Timestamp :: int                          \<comment> \<open>\<open>Timestamp.getTime()\<close>\<close>
  ResourceType :: "string option"
  ResourceStatus :: "string option"
  ResourceStatusReason :: "string option"
  ResourceProperties :: "string option"

record rbac_rule =
  apiGroups :: "string list"
  resources :: "string list"
  verbs :: "string list"

text \<open>
  The \<open>mapRoles\<close> property of the \<open>aws-auth\<close> config map is held in parsed form (what
  \<open>YAML.load\<close> returns and \<open>YAML.dump\<close> takes): a list of entries.
\<close>

record role_entry =
  groups :: "string list"
  rolearn :: "string option"
  username :: "string option"

datatype call =
    MakeDir string
  | CreateStack string string                  \<comment> \<open>StackName, the NamespaceName parameter\<close>
  | DescribeStacks string
  | DescribeStackEvents string
  | Sleep nat
  | DeleteStack string
  | WaitForStackDeleteComplete string
  | K8sCreateNamespace string
  | K8sDeleteNamespace string
  | CreateNamespacedRole string string "rbac_rule list"          \<comment> \<open>namespace, role, rules\<close>
  | DeleteNamespacedRole string string                           \<comment> \<open>role, namespace\<close>
  | CreateNamespacedRoleBinding string string string string      \<comment> \<open>namespace, binding, group, role\<close>
  | DeleteNamespacedRoleBinding string string                    \<comment> \<open>binding, namespace\<close>
  | ReadNamespacedConfigMap string string
  | ReplaceNamespacedConfigMap string string "role_entry list"

text \<open>The closures handed to \<open>revertStack.add\<close>, each with the variables it captures.\<close>

datatype compensation =
    RemoveStack string                         \<comment> \<open>StackName\<close>
  | RemoveNamespace string                     \<comment> \<open>namespaceName\<close>
  | RemoveRole string string string            \<comment> \<open>name, kubernetesRoleName, namespaceName\<close>
  | RemoveRoleBinding string string string     \<comment> \<open>name, kubernetesRoleBindingName, namespaceName\<close>
  | RemoveMapRole string                       \<comment> \<open>roleArn\<close>

text \<open>
  The environment is what the collaborators answer: which requests they reject (it may
  depend on all requests made before), the successive answers of \<open>describeStacks\<close> and
  \<open>describeStackEvents\<close>, and the conversion of a numeral to the string of its number.
\<close>

type_synonym describe_reply = "error + stack list option"
type_synonym events_reply = "error + stack_event list option"

record env =
  rejects :: "call list \<Rightarrow> call \<Rightarrow> error option"
  describeStacks_replies :: "describe_reply list"
  describeStackEvents_replies :: "events_reply list"
  numberToString :: "string \<Rightarrow> string"

record state =
  calls :: "call list"                   \<comment> \<open>every request made, oldest first\<close>
  effects :: "call list"                 \<comment> \<open>the changing requests that the remote systems accepted\<close>
  logged :: "(string \<times> string) list"     \<comment> \<open>\<open>Logger.log(tag, message)\<close>\<close>
  mapRoles :: "role_entry list"
  revertStack :: "compensation list"

type_synonym 'a result = "(error + 'a) \<times> state"

fun changes_remote :: "call \<Rightarrow> bool" where
  "changes_remote (CreateStack n p) = True"
| "changes_remote (DeleteStack n) = True"
| "changes_remote (K8sCreateNamespace n) = True"
| "changes_remote (K8sDeleteNamespace n) = True"
| "changes_remote (CreateNamespacedRole ns r rules) = True"
| "changes_remote (DeleteNamespacedRole r ns) = True"
| "changes_remote (CreateNamespacedRoleBinding ns b g r) = True"
| "changes_remote (DeleteNamespacedRoleBinding b ns) = True"
| "changes_remote (ReplaceNamespacedConfigMap n ns doc) = True"
| "changes_remote _ = False"

definition accept :: "call \<Rightarrow> state \<Rightarrow> state" where
  "accept c s =
     (let s1 = s\<lparr>calls := calls s @ [c],
                 effects := (if changes_remote c then effects s @ [c] else effects s)\<rparr>
      in case c of ReplaceNamespacedConfigMap n ns doc \<Rightarrow> s1\<lparr>mapRoles := doc\<rparr> | _ \<Rightarrow> s1)"

definition perform :: "env \<Rightarrow> call \<Rightarrow> state \<Rightarrow> unit result" where
  \<comment> \<open>\<open>await\<close> one request: rejected, it throws and changes nothing remote\<close>
  "perform E c s =
     (case rejects E (calls s) c of
        Some e \<Rightarrow> (Inl e, s\<lparr>calls := calls s @ [c]\<rparr>)
      | None \<Rightarrow> (Inr (), accept c s))"

definition Logger_log :: "string \<Rightarrow> string \<Rightarrow> state \<Rightarrow> state" where
  "Logger_log tag message s = s\<lparr>logged := logged s @ [(tag, message)]\<rparr>"

definition andThen :: "'a result \<Rightarrow> ('a \<Rightarrow> state \<Rightarrow> 'b result) \<Rightarrow> 'b result" where
  \<comment> \<open>sequencing: a throw skips the rest\<close>
  "andThen r k = (case r of (Inl e, s) \<Rightarrow> (Inl e, s) | (Inr a, s) \<Rightarrow> k a s)"

text \<open>
  Modelled from the spec: the revert stack comes from the package \<open>@lpha/core\<close>, which is
  not among the sources. Per the spec, \<open>add\<close> appends a compensation to the shared
  sequence.
\<close>

definition add :: "compensation \<Rightarrow> state \<Rightarrow> state" where
  "add c s = s\<lparr>revertStack := revertStack s @ [c]\<rparr>"

definition quoted :: "string \<Rightarrow> string" where
  \<comment> \<open>\<open>"${x}"\<close> inside a message\<close>
  "quoted x = CHR 0x22 # x @ [CHR 0x22]"

section \<open>The command \<open>create-k8s-namespace-user\<close>\<close>

record namespace_args =
  clusterName :: string
  namespaceName :: string

record user_args = namespace_args +
  roleArn :: "string option"
  suffix :: string
  rbacRules :: "rbac_rule list"

definition readMapRoles :: "env \<Rightarrow> state \<Rightarrow> role_entry list result" where
  \<comment> \<open>\<open>readNamespacedConfigMap('aws-auth', 'kube-system')\<close>, then \<open>YAML.load\<close> of \<open>mapRoles\<close>\<close>
  "readMapRoles E s =
     andThen (perform E (ReadNamespacedConfigMap ''aws-auth'' ''kube-system'') s)
       (\<lambda>_ s. (Inr (mapRoles s), s))"

definition replaceMapRoles :: "env \<Rightarrow> role_entry list \<Rightarrow> state \<Rightarrow> unit result" where
  \<comment> \<open>\<open>YAML.dump\<close> into \<open>mapRoles\<close>, then \<open>replaceNamespacedConfigMap\<close>\<close>
  "replaceMapRoles E roles s = perform E (ReplaceNamespacedConfigMap ''aws-auth'' ''kube-system'' roles) s"

text \<open>
  The \<open>execute\<close> function of the command. It takes \<open>clusterName\<close>, \<open>namespaceName\<close>,
  \<open>suffix\<close> and \<open>rbacRules\<close> from its arguments; the constant \<open>roleArn\<close> of its body is
  built from the names.
\<close>

definition createKubernetesNamespaceUser :: "env \<Rightarrow> user_args \<Rightarrow> state \<Rightarrow> unit result" where
  "createKubernetesNamespaceUser E args s0 =
     (let kubernetesName = namespaceName args @ ''-'' @ suffix args;
          name = kubernetesName @ ''-'' @ clusterName args;
          kubernetesGroupName = kubernetesName @ ''-group'';
          kubernetesRoleName = kubernetesName @ ''-role'';
          kubernetesRoleBindingName = kubernetesName @ ''-role-binding'';
          roleArn = name @ ''-k8s-role'';
          s1 = Logger_log ''CreateK8sNamespaceUser''
                 (''Creating '' @ suffix args @ '' user for namespace '' @ namespaceName args @ ''...'') s0;
          s2 = Logger_log (name @ ''|AWS'') ''Getting AWS Account ID...'' s1;
          s3 = Logger_log (name @ ''|K8S'')
                 (''Creating namespaced role '' @ quoted kubernetesRoleName @ '' for namespace ''
                    @ quoted (namespaceName args) @ ''...'') s2
      in
      andThen (perform E (CreateNamespacedRole (namespaceName args) kubernetesRoleName (rbacRules args)) s3)
        (\<lambda>_ s4.
      let s5 = add (RemoveRole name kubernetesRoleName (namespaceName args)) s4;
          s6 = Logger_log (name @ ''|K8S'')
                 (''Creating namespaced role binding '' @ quoted kubernetesRoleBindingName
                    @ '' for namespace '' @ quoted (namespaceName args) @ ''...'') s5
      in
      andThen (perform E (CreateNamespacedRoleBinding (namespaceName args) kubernetesRoleBindingName
                            kubernetesGroupName kubernetesRoleName) s6)
        (\<lambda>_ s7.
      let s8 = add (RemoveRoleBinding name kubernetesRoleBindingName (namespaceName args)) s7;
          s9 = Logger_log (name @ ''|K8S'')
                 (''Reading AWS Auth configuration and updating '' @ quoted ''mapRoles'' @ '' property...'') s8
      in
      andThen (readMapRoles E s9)
        (\<lambda>roles s10.
      andThen (replaceMapRoles E
                 (roles @ [\<lparr>groups = [kubernetesGroupName], rolearn = Some roleArn,
                            username = Some kubernetesName\<rparr>]) s10)
        (\<lambda>_ s11. (Inr (), add (RemoveMapRole roleArn) s11))))))"

text \<open>
  What each closure on the revert stack does when it is called (\<open>ns\<close> is the captured
  \<open>namespaceName\<close>, \<open>arn\<close> the captured \<open>roleArn\<close>).
\<close>

fun run_compensation :: "env \<Rightarrow> compensation \<Rightarrow> state \<Rightarrow> unit result" where
  "run_compensation E (RemoveStack StackName) s =
     andThen (perform E (DeleteStack StackName)
                (Logger_log ''create-namespace''
                   (''Removing AWS CloudFormation stack '' @ quoted StackName @ ''...'') s))
       (\<lambda>_ s1. perform E (WaitForStackDeleteComplete StackName) s1)"
| "run_compensation E (RemoveNamespace ns) s =
     perform E (K8sDeleteNamespace ns)
       (Logger_log ''create-namespace'' (''Deleting namespace '' @ quoted ns @ ''...'') s)"
| "run_compensation E (RemoveRole name kubernetesRoleName ns) s =
     perform E (DeleteNamespacedRole kubernetesRoleName ns)
       (Logger_log (name @ ''|K8S'')
          (''Deleting namespaced role '' @ quoted kubernetesRoleName @ '' for namespace ''
             @ quoted ns @ ''...'') s)"
| "run_compensation E (RemoveRoleBinding name kubernetesRoleBindingName ns) s =
     perform E (DeleteNamespacedRoleBinding kubernetesRoleBindingName ns)
       (Logger_log (name @ ''|K8S'')
          (''Deleting namespaced role binding '' @ quoted kubernetesRoleBindingName
             @ '' for namespace '' @ quoted ns @ ''...'') s)"
| "run_compensation E (RemoveMapRole arn) s =
     andThen (readMapRoles E s)
       (\<lambda>roles s1. replaceMapRoles E (filter (\<lambda>role. rolearn role \<noteq> Some arn) roles) s1)"

section \<open>The command \<open>create-namespace\<close>\<close>

subsection \<open>Waiting for the stack\<close>

definition describeStack :: "string \<Rightarrow> describe_reply \<Rightarrow> state \<Rightarrow> stack result" where
  "describeStack StackName reply s =
     (let s1 = s\<lparr>calls := calls s @ [DescribeStacks StackName]\<rparr> in
      case reply of
        Inl e \<Rightarrow> (Inl e, s1)
      | Inr Stacks \<Rightarrow>
          (case Stacks of
             Some [st] \<Rightarrow> (Inr st, s1)
           | _ \<Rightarrow> (Inl (Error (''Can not find exactly one stack for name '' @ quoted StackName)), s1)))"

definition getStackStatus :: "string \<Rightarrow> describe_reply \<Rightarrow> state \<Rightarrow> string result" where
  "getStackStatus StackName reply s =
     andThen (describeStack StackName reply s) (\<lambda>st s1. (Inr (StackStatus st), s1))"

text \<open>
  The body of \<open>forEach\<close> for one event. \<open>publishedEventIds\<close> is the array of the source;
  \<open>surfaced\<close> records the events whose line has been logged, in order (the line itself
  carries neither the id nor the timestamp).
\<close>

record poller =
  publishedEventIds :: "string list"
  surfaced :: "stack_event list"

definition resource_name :: "env \<Rightarrow> stack_event \<Rightarrow> error + json option" where
  "resource_name E e =
     (case JSON_parse (case ResourceProperties e of None \<Rightarrow> ''{}''
                       | Some text \<Rightarrow> if text = [] then ''{}'' else text) of
        None \<Rightarrow> Inl SyntaxError
      | Some parsed \<Rightarrow>
          (case Object_entries parsed of
             Inl err \<Rightarrow> Inl err
           | Inr entries \<Rightarrow>
               (case filter (\<lambda>(key, value). key \<noteq> [] \<and> js_truthy (numberToString E) value
                                          \<and> sublist ''name'' (toLowerCase key)) entries of
                  [] \<Rightarrow> Inr None
                | (key, value) # _ \<Rightarrow> Inr (Some value))))"

definition event_line :: "env \<Rightarrow> stack_event \<Rightarrow> error + string" where
  "event_line E e =
     (case resource_name E e of
        Inl err \<Rightarrow> Inl err
      | Inr name \<Rightarrow>
          (let resourceName =
                 (case name of None \<Rightarrow> []
                  | Some v \<Rightarrow> if js_truthy (numberToString E) v
                              then ''('' @ js_to_string (numberToString E) v @ '')'' else []);
               statusReason =
                 (case ResourceStatusReason e of None \<Rightarrow> []
                  | Some r \<Rightarrow> if r = [] then [] else '' | '' @ r)
           in Inr (template_str (ResourceType e) @ resourceName @ '' | ''
                     @ template_str (ResourceStatus e) @ statusReason)))"

text \<open>
  \<open>sort\<close> is taken to be stable (\<open>sort_key\<close> is); among events of equal timestamp an
  engine with an unstable sort may give another order.
\<close>

definition new_events :: "string list \<Rightarrow> stack_event list \<Rightarrow> stack_event list" where
  \<comment> \<open>\<open>.sort(by Timestamp).filter(not yet published)\<close>, both done before \<open>forEach\<close> starts\<close>
  "new_events published StackEvents =
     filter (\<lambda>e. EventId e \<notin> set published) (sort_key Timestamp StackEvents)"

fun publish_each :: "env \<Rightarrow> stack_event list \<Rightarrow> poller \<Rightarrow> state \<Rightarrow> (error + unit) \<times> poller \<times> state" where
  "publish_each E [] p s = (Inr (), p, s)"
| "publish_each E (e # es) p s =
     (let p1 = p\<lparr>publishedEventIds := publishedEventIds p @ [EventId e]\<rparr> in
      case event_line E e of
        Inl err \<Rightarrow> (Inl err, p1, s)
      | Inr line \<Rightarrow>
          publish_each E es (p1\<lparr>surfaced := surfaced p1 @ [e]\<rparr>)
            (Logger_log ''create-namespace|CloudFormation'' line s))"

definition publish_batch :: "env \<Rightarrow> stack_event list option \<Rightarrow> poller \<Rightarrow> state \<Rightarrow> (error + unit) \<times> poller \<times> state" where
  \<comment> \<open>one poll: \<open>(StackEvents || []).sort(...).filter(...).forEach(...)\<close>\<close>
  "publish_batch E StackEvents p s =
     publish_each E (new_events (publishedEventIds p) (case StackEvents of None \<Rightarrow> [] | Some es \<Rightarrow> es)) p s"

text \<open>
  The \<open>while\<close> loop. Each turn takes the next answer of \<open>describeStacks\<close> and, while the
  stack is in progress, the next answer of \<open>describeStackEvents\<close>. The loop ends with the
  first answer that is not \<open>CREATE_IN_PROGRESS\<close> and gives back the answers not yet used.
  \<open>None\<close>: the answers ran out while the stack was still in progress, so the loop is
  still polling.
\<close>

fun poll_loop :: "env \<Rightarrow> string \<Rightarrow> describe_reply list \<Rightarrow> events_reply list \<Rightarrow> poller \<Rightarrow> state
                  \<Rightarrow> ((error + describe_reply list) \<times> poller \<times> state) option" where
  "poll_loop E StackName [] evs p s = None"
| "poll_loop E StackName (d # ds) evs p s =
     (case getStackStatus StackName d s of
        (Inl err, s1) \<Rightarrow> Some (Inl err, p, s1)
      | (Inr status, s1) \<Rightarrow>
          if status \<noteq> ''CREATE_IN_PROGRESS'' then Some (Inr ds, p, s1)
          else (case evs of
                  [] \<Rightarrow> None
                | ev # evs' \<Rightarrow>
                    (let s2 = s1\<lparr>calls := calls s1 @ [DescribeStackEvents StackName]\<rparr> in
                     case ev of
                       Inl err \<Rightarrow> Some (Inl err, p, s2)
                     | Inr StackEvents \<Rightarrow>
                         (case publish_batch E StackEvents p s2 of
                            (Inl err, p1, s3) \<Rightarrow> Some (Inl err, p1, s3)
                          | (Inr _, p1, s3) \<Rightarrow>
                              (case perform E (Sleep 1500) s3 of
                                 (Inl err, s4) \<Rightarrow> Some (Inl err, p1, s4)
                               | (Inr _, s4) \<Rightarrow> poll_loop E StackName ds evs' p1 s4)))))"

definition collect_outputs :: "stack_output list \<Rightarrow> (string \<rightharpoonup> string)" where
  "collect_outputs outs =
     foldl (\<lambda>outputs out.
              case (OutputKey out, OutputValue out) of
                (Some k, Some v) \<Rightarrow> if k \<noteq> [] \<and> v \<noteq> [] then outputs(k \<mapsto> v) else outputs
              | _ \<Rightarrow> outputs) Map.empty outs"

definition stackOutputs :: "string \<Rightarrow> describe_reply \<Rightarrow> state \<Rightarrow> (string \<rightharpoonup> string) result" where
  \<comment> \<open>after the loop: describe once more, check the status, read the outputs\<close>
  "stackOutputs StackName reply s =
     andThen (describeStack StackName reply s)
       (\<lambda>st s1.
          if StackStatus st \<noteq> ''CREATE_COMPLETE''
          then (Inl (Error ''Unexpected AWS CloudFormation stack creation result.''), s1)
          else (Inr (collect_outputs (case Outputs st of None \<Rightarrow> [] | Some outs \<Rightarrow> outs)), s1))"

subsection \<open>The cluster side\<close>

definition admin_rules :: "rbac_rule list" where
  "admin_rules =
     [\<lparr>apiGroups = [[], ''extensions'', ''apps'', ''persistentvolumeclaims'', ''storage.k8s.io'', ''autoscaling''],
       resources = [''*''], verbs = [''*'']\<rparr>,
      \<lparr>apiGroups = [''batch''], resources = [''jobs'', ''cronjobs''], verbs = [''*'']\<rparr>]"

definition deployments_rules :: "rbac_rule list" where
  "deployments_rules =
     [\<lparr>apiGroups = [''extensions'', ''apps''], resources = [''deployments''], verbs = [''*'']\<rparr>]"

text \<open>
  The nested \<open>createKubernetesNamespaceUser.exec(args, revertStack)\<close> is taken to run the
  \<open>execute\<close> function of that command on the same revert stack (what the library may
  check of the arguments before is left out). An output that the stack does not have is
  \<open>undefined\<close>, here \<open>None\<close>.
\<close>

definition provisionCluster :: "env \<Rightarrow> namespace_args \<Rightarrow> (string \<rightharpoonup> string) \<Rightarrow> state \<Rightarrow> unit result" where
  "provisionCluster E args outputs s0 =
     andThen (perform E (K8sCreateNamespace (namespaceName args))
                (Logger_log ''create-namespace''
                   (''Creating namespace '' @ quoted (namespaceName args) @ ''...'') s0))
       (\<lambda>_ s1.
     andThen (createKubernetesNamespaceUser E
                \<lparr>clusterName = clusterName args, namespaceName = namespaceName args,
                  roleArn = outputs ''AdminKubernetesRole'', suffix = ''admin'',
                  rbacRules = admin_rules\<rparr>
                (add (RemoveNamespace (namespaceName args)) s1))
       (\<lambda>_ s2.
     createKubernetesNamespaceUser E
       \<lparr>clusterName = clusterName args, namespaceName = namespaceName args,
         roleArn = outputs ''DeploymentsKubernetesRole'', suffix = ''deployments'',
         rbacRules = deployments_rules\<rparr> s2))"

subsection \<open>The \<open>execute\<close> function\<close>

text \<open>
  \<open>createStack\<close> is the function up to its first \<open>revertStack.add\<close>: the check of the
  name, \<open>makeDir\<close>, \<open>cf.createStack\<close>, and the closure that removes the stack; it gives
  \<open>StackName\<close>. \<open>createNamespace\<close> is the whole function; it is \<open>None\<close> when the answers of
  \<open>describeStacks\<close> run out before the run has ended.
\<close>

definition createStack :: "env \<Rightarrow> namespace_args \<Rightarrow> state \<Rightarrow> string result" where
  "createStack E args s0 =
     (if namespace_name_invalid (namespaceName args)
      then (Inl (Error (''Namespace name is invalid: '' @ namespaceName args)), s0)
      else
        andThen (perform E (MakeDir (''./namespaces/'' @ namespaceName args)) s0)
          (\<lambda>_ s1.
        let StackName = namespaceName args @ ''-namespace'' in
        andThen (perform E (CreateStack StackName (namespaceName args))
                   (Logger_log ''create-namespace''
                      (''Creating AWS CloudFormation Stack '' @ quoted StackName @ ''...'') s1))
          (\<lambda>_ s2. (Inr StackName, add (RemoveStack StackName) s2))))"

definition createNamespace :: "env \<Rightarrow> namespace_args \<Rightarrow> state \<Rightarrow> unit result option" where
  "createNamespace E args s0 =
     (case createStack E args s0 of
        (Inl err, s1) \<Rightarrow> Some (Inl err, s1)
      | (Inr StackName, s1) \<Rightarrow>
          (case poll_loop E StackName (describeStacks_replies E) (describeStackEvents_replies E)
                  \<lparr>publishedEventIds = [], surfaced = []\<rparr> s1 of
             None \<Rightarrow> None
           | Some (Inl err, p, s2) \<Rightarrow> Some (Inl err, s2)
           | Some (Inr [], p, s2) \<Rightarrow> None
           | Some (Inr (reply # _), p, s2) \<Rightarrow>
               Some (andThen (stackOutputs StackName reply s2)
                       (\<lambda>outputs s3. provisionCluster E args outputs s3))))"

section \<open>Forward effects and their compensations\<close>

text \<open>
  Which closure undoes which accepted request: the closure names the resource the
  request created; for the mapping document, the closure's role identifier is that of
  the entry the request appended (the last one of the document it wrote).
\<close>

fun undoes :: "compensation \<Rightarrow> call \<Rightarrow> bool" where
  "undoes (RemoveStack n) (CreateStack n' p) = (n = n')"
| "undoes (RemoveNamespace ns) (K8sCreateNamespace ns') = (ns = ns')"
| "undoes (RemoveRole tag r ns) (CreateNamespacedRole ns' r' rules) = (r = r' \<and> ns = ns')"
| "undoes (RemoveRoleBinding tag b ns) (CreateNamespacedRoleBinding ns' b' g r) = (b = b' \<and> ns = ns')"
| "undoes (RemoveMapRole arn) (ReplaceNamespacedConfigMap n ns doc) =
     (doc \<noteq> [] \<and> rolearn (last doc) = Some arn)"
| "undoes _ _ = False"

definition mirrors :: "state \<Rightarrow> state \<Rightarrow> bool" where
  \<comment> \<open>from \<open>s\<close> to \<open>s'\<close>: the closures added are, one for one and in order, those of the requests accepted\<close>
  "mirrors s s' =
     (prefix (effects s) (effects s') \<and> prefix (revertStack s) (revertStack s') \<and>
      list_all2 undoes (drop (length (revertStack s)) (revertStack s'))
                       (drop (length (effects s)) (effects s')))"

definition advances :: "state \<Rightarrow> state \<Rightarrow> bool" where
  "advances s s' = (prefix (calls s) (calls s') \<and> mirrors s s')"

section \<open>The orchestrator\<close>

text \<open>
  Modelled from the spec: the orchestrator that runs the forward actions and unwinds the
  revert stack belongs to the package \<open>@lpha/core\<close>, which is not among the sources; the
  commands above only call its \<open>add\<close>. Per the spec, \<open>runForward\<close> runs the actions in
  order; after each success it adds the compensation bound to that action's output; on a
  failure it stops, adds nothing for the failed action, unwinds and raises the failure
  again. \<open>unwind\<close> goes through the sequence from the most recently added to the least
  recently added and invokes each compensation; a compensation that fails is reported and
  does not stop the rest.

  \<open>act a w\<close> runs action \<open>a\<close> in the world \<open>w\<close>; \<open>compensate a out\<close> is its compensation;
  \<open>invoke c w\<close> runs a compensation and gives its failure, if any.
\<close>

fun unwind_each :: "('c \<Rightarrow> 'w \<Rightarrow> 'e option \<times> 'w) \<Rightarrow> 'c list \<Rightarrow> 'w \<Rightarrow> 'c list \<times> ('c \<times> 'e) list \<times> 'w" where
  "unwind_each invoke [] w = ([], [], w)"
| "unwind_each invoke (c # cs) w =
     (case invoke c w of
        (failure, w1) \<Rightarrow>
          (case unwind_each invoke cs w1 of
             (invoked, failures, w2) \<Rightarrow>
               (c # invoked, (case failure of None \<Rightarrow> failures | Some e \<Rightarrow> (c, e) # failures), w2)))"

definition unwind :: "('c \<Rightarrow> 'w \<Rightarrow> 'e option \<times> 'w) \<Rightarrow> 'c list \<Rightarrow> 'w \<Rightarrow> 'c list \<times> ('c \<times> 'e) list \<times> 'w" where
  \<comment> \<open>gives the compensations in the order they were invoked, the failures among them, the world after\<close>
  "unwind invoke sequence w = unwind_each invoke (rev sequence) w"

fun forward_pass :: "('a \<Rightarrow> 'w \<Rightarrow> ('e + 'o) \<times> 'w) \<Rightarrow> ('a \<Rightarrow> 'o \<Rightarrow> 'c) \<Rightarrow> 'a list \<Rightarrow> 'c list \<Rightarrow> 'w
                     \<Rightarrow> 'e option \<times> 'c list \<times> 'w" where
  "forward_pass act compensate [] sequence w = (None, sequence, w)"
| "forward_pass act compensate (a # rest) sequence w =
     (case act a w of
        (Inl e, w1) \<Rightarrow> (Some e, sequence, w1)
      | (Inr out, w1) \<Rightarrow> forward_pass act compensate rest (sequence @ [compensate a out]) w1)"

record ('c, 'e, 'w) report =
  raised :: "'e option"                  \<comment> \<open>the forward failure raised to the caller\<close>
  invoked :: "'c list"                   \<comment> \<open>the compensations invoked, in order\<close>
  unwind_failures :: "('c \<times> 'e) list"
  final :: 'w

definition runForward :: "('a \<Rightarrow> 'w \<Rightarrow> ('e + 'o) \<times> 'w) \<Rightarrow> ('a \<Rightarrow> 'o \<Rightarrow> 'c) \<Rightarrow> ('c \<Rightarrow> 'w \<Rightarrow> 'e option \<times> 'w)
                   \<Rightarrow> 'a list \<Rightarrow> 'w \<Rightarrow> ('c, 'e, 'w) report" where
  "runForward act compensate invoke actions w =
     (case forward_pass act compensate actions [] w of
        (None, sequence, w1) \<Rightarrow> \<lparr>raised = None, invoked = [], unwind_failures = [], final = w1\<rparr>
      | (Some e, sequence, w1) \<Rightarrow>
          (case unwind invoke sequence w1 of
             (called, failures, w2) \<Rightarrow>
               \<lparr>raised = Some e, invoked = called, unwind_failures = failures, final = w2\<rparr>))"

section \<open>Notions used by the statements\<close>

text \<open>
  \<open>succeed_all act actions w\<close>: the actions, run one after the other from \<open>w\<close> with no
  orchestrator around them, all succeed; it gives their outputs and the world they leave.
\<close>

fun succeed_all :: "('a \<Rightarrow> 'w \<Rightarrow> ('e + 'o) \<times> 'w) \<Rightarrow> 'a list \<Rightarrow> 'w \<Rightarrow> ('o list \<times> 'w) option" where
  "succeed_all act [] w = Some ([], w)"
| "succeed_all act (a # rest) w =
     (case act a w of
        (Inl e, w1) \<Rightarrow> None
      | (Inr out, w1) \<Rightarrow>
          (case succeed_all act rest w1 of
             None \<Rightarrow> None
           | Some (outs, w2) \<Rightarrow> Some (out # outs, w2)))"

definition observed :: "((error + describe_reply list) \<times> poller \<times> state) option \<Rightarrow> stack_event list" where
  \<comment> \<open>the events a run of the loop has surfaced\<close>
  "observed run = (case run of None \<Rightarrow> [] | Some (r, p, s) \<Rightarrow> surfaced p)"

definition no_repeated_id :: "events_reply \<Rightarrow> bool" where
  \<comment> \<open>an answer of \<open>describeStackEvents\<close> that lists no event id twice\<close>
  "no_repeated_id reply = (case reply of Inr (Some batch) \<Rightarrow> distinct (map EventId batch) | _ \<Rightarrow> True)"

definition ascii_letter :: "char \<Rightarrow> bool" where
  "ascii_letter c = (let n = (of_char c :: nat) in (65 \<le> n \<and> n \<le> 90) \<or> (97 \<le> n \<and> n \<le> 122))"

definition ascii_digit :: "char \<Rightarrow> bool" where
  "ascii_digit c = (let n = (of_char c :: nat) in 48 \<le> n \<and> n \<le> 57)"

definition name_matches_ignoring_case :: "string \<Rightarrow> bool" where
  \<comment> \<open>a letter of either case, then letters of either case, digits and hyphens\<close>
  "name_matches_ignoring_case s =
     (case s of [] \<Rightarrow> False
      | c # cs \<Rightarrow> ascii_letter c \<and> list_all (\<lambda>x. ascii_letter x \<or> ascii_digit x \<or> x = CHR ''-'') cs)"

definition thrown :: "unit result option \<Rightarrow> error option" where
  \<comment> \<open>the error a finished run of a command has thrown\<close>
  "thrown run = (case run of Some (Inl e, s) \<Rightarrow> Some e | _ \<Rightarrow> None)"

definition after_run :: "unit result option \<Rightarrow> state \<Rightarrow> state" where
  \<comment> \<open>the state a finished run has left (the given one when the run has not finished)\<close>
  "after_run run s = (case run of Some (r, s') \<Rightarrow> s' | None \<Rightarrow> s)"

subsection \<open>Scenarios\<close>

definition scripted :: "(call list \<Rightarrow> call \<Rightarrow> error option) \<Rightarrow> describe_reply list \<Rightarrow> events_reply list \<Rightarrow> env" where
  \<comment> \<open>numerals print as written, which is what JavaScript prints only for a canonical integer
      numeral; no scenario below contains a numeral\<close>
  "scripted rej ds evs =
     \<lparr>rejects = rej, describeStacks_replies = ds, describeStackEvents_replies = evs,
      numberToString = (\<lambda>n. n)\<rparr>"

definition accept_all :: "call list \<Rightarrow> call \<Rightarrow> error option" where
  "accept_all history c = None"

definition reject_binding_of :: "string \<Rightarrow> call list \<Rightarrow> call \<Rightarrow> error option" where
  \<comment> \<open>the cluster refuses to create the role binding of that name\<close>
  "reject_binding_of binding history c =
     (case c of
        CreateNamespacedRoleBinding ns b g r \<Rightarrow> if b = binding then Some (Rejected ''Conflict'') else None
      | _ \<Rightarrow> None)"

definition empty_state :: state where
  "empty_state = \<lparr>calls = [], effects = [], logged = [], mapRoles = [], revertStack = []\<rparr>"

definition empty_poller :: poller where
  "empty_poller = \<lparr>publishedEventIds = [], surfaced = []\<rparr>"

definition stack_in :: "string \<Rightarrow> describe_reply" where
  "stack_in status = Inr (Some [\<lparr>StackStatus = status, Outputs = None\<rparr>])"

definition converged_stack :: stack where
  "converged_stack =
     \<lparr>StackStatus = ''CREATE_COMPLETE'',
      Outputs = Some [\<lparr>OutputKey = Some ''AdminKubernetesRole'', OutputValue = Some ''arn:admin''\<rparr>,
                      \<lparr>OutputKey = Some ''DeploymentsKubernetesRole'', OutputValue = Some ''arn:deploy''\<rparr>]\<rparr>"

definition converged :: describe_reply where
  "converged = Inr (Some [converged_stack])"

definition team_a :: namespace_args where
  "team_a = \<lparr>clusterName = ''c1'', namespaceName = ''team-a''\<rparr>"

definition event :: "string \<Rightarrow> int \<Rightarrow> string option \<Rightarrow> stack_event" where
  "event eid time props =
     \<lparr>EventId = eid, Timestamp = time, ResourceType = Some ''AWS::IAM::Role'',
      ResourceStatus = Some ''CREATE_IN_PROGRESS'', ResourceStatusReason = None,
      ResourceProperties = props\<rparr>"

definition three_entries :: "role_entry list" where
  "three_entries =
     [\<lparr>groups = [''system:masters''], rolearn = Some ''arn:aws:iam::1:role/ops'', username = Some ''ops''\<rparr>,
      \<lparr>groups = [''team-a-admin-group''], rolearn = Some ''team-a-admin-c1-k8s-role'',
       username = Some ''team-a-admin''\<rparr>,
      \<lparr>groups = [''team-b-admin-group''], rolearn = Some ''team-b-admin-c1-k8s-role'',
       username = Some ''team-b-admin''\<rparr>]"

definition one_poll :: "describe_reply list" where
  \<comment> \<open>in progress at the first query, complete at the second and after\<close>
  "one_poll = [stack_in ''CREATE_IN_PROGRESS'', converged, converged]"

definition two_polls :: "describe_reply list" where
  "two_polls = [stack_in ''CREATE_IN_PROGRESS'', stack_in ''CREATE_IN_PROGRESS'', converged, converged]"

definition late_older_event :: "events_reply list" where
  \<comment> \<open>the second poll brings an event older than the one the first poll has brought\<close>
  "late_older_event =
     [Inr (Some [event ''B'' 10 None]), Inr (Some [event ''A'' 5 None, event ''B'' 10 None])]"

definition listed_twice :: "events_reply list" where
  \<comment> \<open>one answer lists the same event twice\<close>
  "listed_twice = [Inr (Some [event ''A'' 5 None, event ''A'' 5 None])]"

definition unparsable_payload :: "events_reply list" where
  "unparsable_payload = [Inr (Some [event ''A'' 5 (Some ''not json'')])]"

definition rolled_back :: "describe_reply list" where
  "rolled_back = [stack_in ''ROLLBACK_COMPLETE'', stack_in ''ROLLBACK_COMPLETE'']"

fun undo_of :: "call \<Rightarrow> unit \<Rightarrow> compensation" where
  \<comment> \<open>for a scenario of the orchestrator: the closure that the commands pair with a request\<close>
  "undo_of (CreateStack n p) u = RemoveStack n"
| "undo_of (K8sCreateNamespace ns) u = RemoveNamespace ns"
| "undo_of (CreateNamespacedRole ns r rules) u = RemoveRole ns r ns"
| "undo_of (CreateNamespacedRoleBinding ns b g r) u = RemoveRoleBinding ns b ns"
| "undo_of c u = RemoveMapRole []"

definition invoke_closure :: "env \<Rightarrow> compensation \<Rightarrow> state \<Rightarrow> error option \<times> state" where
  "invoke_closure E c s = (case run_compensation E c s of (Inl e, s') \<Rightarrow> (Some e, s') | (Inr u, s') \<Rightarrow> (None, s'))"

definition reject_role_of :: "string \<Rightarrow> call list \<Rightarrow> call \<Rightarrow> error option" where
  "reject_role_of role history c =
     (case c of
        CreateNamespacedRole ns r rules \<Rightarrow> if r = role then Some (Rejected ''Forbidden'') else None
      | _ \<Rightarrow> None)"

definition three_actions :: "call list" where
  "three_actions =
     [CreateStack ''team-a-namespace'' ''team-a'', K8sCreateNamespace ''team-a'',
      CreateNamespacedRole ''team-a'' ''team-a-admin-role'' admin_rules]"

section \<open>How the state moves\<close>

lemma mirrors_iff:
  "mirrors s s' \<longleftrightarrow> (\<exists>es cs. effects s' = effects s @ es \<and> revertStack s' = revertStack s @ cs \<and> list_all2 undoes cs es)"
  by (auto simp: mirrors_def prefix_def)

lemma advances_refl: "advances s s"
  by (simp add: advances_def mirrors_def)

lemma advances_trans: "advances s s1 \<Longrightarrow> advances s1 s2 \<Longrightarrow> advances s s2"
  unfolding advances_def mirrors_iff
  by (auto simp: prefix_def intro: list_all2_appendI)

lemma advances_log: "advances s (Logger_log t m s)"
  by (simp add: advances_def mirrors_def Logger_log_def)

lemma advances_called: "advances s (s\<lparr>calls := calls s @ cs\<rparr>)"
  by (simp add: advances_def mirrors_def)

lemma perform_cases:
  "perform E c s = (r, s') \<Longrightarrow>
     (\<exists>e. r = Inl e \<and> s' = s\<lparr>calls := calls s @ [c]\<rparr>) \<or> (r = Inr () \<and> s' = accept c s)"
  by (auto simp: perform_def split: option.splits)

lemma advances_perform_plain:
  "\<not> changes_remote c \<Longrightarrow> perform E c s = (r, s') \<Longrightarrow> advances s s'"
  by (cases c) (auto dest!: perform_cases simp: advances_def mirrors_def accept_def)

lemma advances_perform_failed:
  "perform E c s = (Inl e, s') \<Longrightarrow> advances s s'"
  by (auto dest!: perform_cases simp: advances_def mirrors_def)

lemma advances_perform_add:
  "perform E c s = (Inr u, s') \<Longrightarrow> undoes k c \<Longrightarrow> advances s (add k s')"
  by (cases c; cases k) (auto dest!: perform_cases simp: advances_def mirrors_def accept_def add_def)

lemma user_advances:
  "createKubernetesNamespaceUser E args s = (r, s') \<Longrightarrow> advances s s'"
  unfolding createKubernetesNamespaceUser_def Let_def andThen_def readMapRoles_def replaceMapRoles_def perform_def
  by (auto simp: advances_def mirrors_def accept_def add_def Logger_log_def split: option.splits)

lemma describeStack_advances: "describeStack n d s = (r, s') \<Longrightarrow> advances s s'"
  by (auto simp: describeStack_def Let_def advances_called split: sum.splits option.splits list.splits)

lemma getStackStatus_advances: "getStackStatus n d s = (r, s') \<Longrightarrow> advances s s'"
  by (auto simp: getStackStatus_def andThen_def split: prod.splits sum.splits dest: describeStack_advances)

lemma publish_each_advances: "publish_each E es p s = (r, p', s') \<Longrightarrow> advances s s'"
proof (induction es arbitrary: p s)
  case Nil
  then show ?case by (simp add: advances_refl)
next
  case (Cons e es)
  show ?case
  proof (cases "event_line E e")
    case (Inl err)
    with Cons.prems show ?thesis by (simp add: Let_def advances_refl)
  next
    case (Inr line)
    with Cons.prems have "advances (Logger_log ''create-namespace|CloudFormation'' line s) s'"
      by (auto simp: Let_def dest: Cons.IH)
    then show ?thesis by (rule advances_trans [OF advances_log])
  qed
qed

lemma poll_loop_advances:
  "poll_loop E n ds evs p s = Some (r, p', s') \<Longrightarrow> advances s s'"
proof (induction ds arbitrary: evs p s)
  case Nil
  then show ?case by simp
next
  case (Cons d ds)
  obtain r1 s1 where g: "getStackStatus n d s = (r1, s1)" by (cases "getStackStatus n d s")
  have a1: "advances s s1" using g by (rule getStackStatus_advances)
  show ?case
  proof (cases r1)
    case (Inl err)
    with Cons.prems g a1 show ?thesis by simp
  next
    case (Inr status)
    show ?thesis
    proof (cases "status = ''CREATE_IN_PROGRESS''")
      case False
      with Cons.prems g a1 Inr show ?thesis by simp
    next
      case True
      show ?thesis
      proof (cases evs)
        case Nil
        with Cons.prems g Inr True show ?thesis by simp
      next
        case (Cons ev evs')
        let ?s2 = "s1\<lparr>calls := calls s1 @ [DescribeStackEvents n]\<rparr>"
        have a2: "advances s ?s2" using a1 advances_called by (rule advances_trans)
        show ?thesis
        proof (cases ev)
          case (Inl err)
          with Cons.prems g Inr True Cons a2 show ?thesis by (simp add: Let_def)
        next
          case (Inr StackEvents)
          obtain r3 p3 s3 where pb: "publish_batch E StackEvents p ?s2 = (r3, p3, s3)"
            by (cases "publish_batch E StackEvents p ?s2")
          have a3: "advances s s3"
            using pb a2 unfolding publish_batch_def by (blast intro: advances_trans publish_each_advances)
          show ?thesis
          proof (cases r3)
            case (Inl err)
            with Cons.prems g \<open>r1 = Inr status\<close> True Cons Inr pb a3 show ?thesis by (simp add: Let_def)
          next
            case r3: (Inr u)
            obtain r4 s4 where sl: "perform E (Sleep 1500) s3 = (r4, s4)" by (cases "perform E (Sleep 1500) s3")
            have a4: "advances s s4"
              using a3 advances_perform_plain [OF _ sl] by (auto intro: advances_trans)
            show ?thesis
            proof (cases r4)
              case (Inl err)
              with Cons.prems g \<open>r1 = Inr status\<close> True Cons Inr pb r3 sl a4 show ?thesis by (simp add: Let_def)
            next
              case r4: (Inr u4)
              have "poll_loop E n ds evs' p3 s4 = Some (r, p', s')"
                using Cons.prems g \<open>r1 = Inr status\<close> True Cons Inr pb r3 sl r4 by (simp add: Let_def)
              then have "advances s4 s'" by (rule Cons.IH)
              with a4 show ?thesis by (rule advances_trans)
            qed
          qed
        qed
      qed
    qed
  qed
qed

lemma stackOutputs_advances: "stackOutputs n d s = (r, s') \<Longrightarrow> advances s s'"
  by (auto simp: stackOutputs_def andThen_def split: prod.splits sum.splits if_splits dest: describeStack_advances)

lemma createStack_advances: "createStack E args s = (r, s') \<Longrightarrow> advances s s'"
  unfolding createStack_def Let_def andThen_def perform_def
  by (auto simp: advances_def mirrors_def accept_def add_def Logger_log_def split: option.splits if_splits)

lemma provisionCluster_advances:
  assumes "provisionCluster E args outputs s = (r, s')" shows "advances s s'"
proof -
  let ?s0 = "Logger_log ''create-namespace'' (''Creating namespace '' @ quoted (namespaceName args) @ ''...'') s"
  let ?a1 = "\<lparr>clusterName = clusterName args, namespaceName = namespaceName args,
                roleArn = outputs ''AdminKubernetesRole'', suffix = ''admin'', rbacRules = admin_rules\<rparr>"
  let ?a2 = "\<lparr>clusterName = clusterName args, namespaceName = namespaceName args,
                roleArn = outputs ''DeploymentsKubernetesRole'', suffix = ''deployments'', rbacRules = deployments_rules\<rparr>"
  have a0: "advances s ?s0" by (rule advances_log)
  obtain r1 s1 where p1: "perform E (K8sCreateNamespace (namespaceName args)) ?s0 = (r1, s1)"
    by (cases "perform E (K8sCreateNamespace (namespaceName args)) ?s0")
  show ?thesis
  proof (cases r1)
    case (Inl e)
    with assms p1 have "s' = s1" unfolding provisionCluster_def andThen_def by simp
    moreover have "advances ?s0 s1" using p1 [unfolded Inl] by (rule advances_perform_failed)
    ultimately show ?thesis using a0 by (blast intro: advances_trans)
  next
    case (Inr u)
    let ?s2 = "add (RemoveNamespace (namespaceName args)) s1"
    have "advances ?s0 ?s2" using p1 [unfolded Inr] by (rule advances_perform_add) simp
    with a0 have a2: "advances s ?s2" by (rule advances_trans)
    obtain r3 s3 where u1: "createKubernetesNamespaceUser E ?a1 ?s2 = (r3, s3)"
      by (cases "createKubernetesNamespaceUser E ?a1 ?s2")
    have a3: "advances s s3" using a2 user_advances [OF u1] by (rule advances_trans)
    show ?thesis
    proof (cases r3)
      case (Inl e)
      with assms p1 Inr u1 have "s' = s3" unfolding provisionCluster_def andThen_def by simp
      with a3 show ?thesis by simp
    next
      case r3: (Inr u3)
      with assms p1 Inr u1 have "createKubernetesNamespaceUser E ?a2 s3 = (r, s')"
        unfolding provisionCluster_def andThen_def by simp
      then have "advances s3 s'" by (rule user_advances)
      with a3 show ?thesis by (rule advances_trans)
    qed
  qed
qed

lemma createNamespace_from_createStack:
  assumes "createNamespace E args s = Some (r, s')"
  shows "\<exists>r1 s1. createStack E args s = (r1, s1) \<and> advances s1 s'"
proof -
  obtain r1 s1 where c1: "createStack E args s = (r1, s1)" by (cases "createStack E args s")
  have "advances s1 s'"
  proof (cases r1)
    case (Inl e)
    with assms c1 show ?thesis by (simp add: createNamespace_def advances_refl)
  next
    case (Inr StackName)
    let ?pl = "poll_loop E StackName (describeStacks_replies E) (describeStackEvents_replies E)
                  \<lparr>publishedEventIds = [], surfaced = []\<rparr> s1"
    from assms c1 Inr obtain r2 p2 s2 where pl: "?pl = Some (r2, p2, s2)"
      by (cases ?pl) (auto simp: createNamespace_def)
    have a2: "advances s1 s2" using pl by (rule poll_loop_advances)
    show ?thesis
    proof (cases r2)
      case (Inl e)
      with assms c1 \<open>r1 = Inr StackName\<close> pl a2 show ?thesis by (simp add: createNamespace_def)
    next
      case r2: (Inr ds)
      with assms c1 \<open>r1 = Inr StackName\<close> pl obtain reply rest where ds: "ds = reply # rest"
        by (cases ds) (auto simp: createNamespace_def)
      obtain r3 s3 where so: "stackOutputs StackName reply s2 = (r3, s3)"
        by (cases "stackOutputs StackName reply s2")
      have a3: "advances s1 s3" using a2 stackOutputs_advances [OF so] by (rule advances_trans)
      show ?thesis
      proof (cases r3)
        case (Inl e)
        with assms c1 \<open>r1 = Inr StackName\<close> pl r2 ds so a3 show ?thesis
          by (simp add: createNamespace_def andThen_def)
      next
        case (Inr outputs)
        with assms c1 \<open>r1 = Inr StackName\<close> pl r2 ds so have "provisionCluster E args outputs s3 = (r, s')"
          by (simp add: createNamespace_def andThen_def)
        then have "advances s3 s'" by (rule provisionCluster_advances)
        with a3 show ?thesis by (rule advances_trans)
      qed
    qed
  qed
  with c1 show ?thesis by blast
qed

lemma createNamespace_advances:
  assumes "createNamespace E args s = Some (r, s')" shows "advances s s'"
proof -
  from createNamespace_from_createStack [OF assms] obtain r1 s1
    where "createStack E args s = (r1, s1)" "advances s1 s'" by blast
  then show ?thesis by (blast intro: advances_trans createStack_advances)
qed

lemma user_accepted:
  assumes "rejects E = (\<lambda>h c. None)"
  shows "\<exists>s'. createKubernetesNamespaceUser E args s = (Inr (), s') \<and>
           mapRoles s' = mapRoles s @
             [\<lparr>groups = [namespaceName args @ ''-'' @ suffix args @ ''-group''],
               rolearn = Some (namespaceName args @ ''-'' @ suffix args @ ''-'' @ clusterName args @ ''-k8s-role''),
               username = Some (namespaceName args @ ''-'' @ suffix args)\<rparr>] \<and>
           rejects E = (\<lambda>h c. None)"
  using assms
  by (simp add: createKubernetesNamespaceUser_def Let_def andThen_def perform_def readMapRoles_def
        replaceMapRoles_def accept_def add_def Logger_log_def)

lemma createStack_accepted:
  assumes "rejects E = (\<lambda>h c. None)" "\<not> namespace_name_invalid (namespaceName args)"
  shows "\<exists>s'. createStack E args s = (Inr (namespaceName args @ ''-namespace''), s') \<and>
           mapRoles s' = mapRoles s \<and>
           calls s' = calls s @ [MakeDir (''./namespaces/'' @ namespaceName args),
                                 CreateStack (namespaceName args @ ''-namespace'') (namespaceName args)]"
  using assms
  by (simp add: createStack_def Let_def andThen_def perform_def accept_def add_def Logger_log_def)

lemma poll_loop_done:
  assumes "StackStatus st \<noteq> ''CREATE_IN_PROGRESS''"
  shows "poll_loop E n (Inr (Some [st]) # ds) evs p s = Some (Inr ds, p, s\<lparr>calls := calls s @ [DescribeStacks n]\<rparr>)"
  using assms by (simp add: getStackStatus_def describeStack_def andThen_def Let_def)

lemma stackOutputs_complete:
  assumes "StackStatus st = ''CREATE_COMPLETE''"
  shows "stackOutputs n (Inr (Some [st])) s =
           (Inr (collect_outputs (case Outputs st of None \<Rightarrow> [] | Some outs \<Rightarrow> outs)),
            s\<lparr>calls := calls s @ [DescribeStacks n]\<rparr>)"
  using assms by (simp add: stackOutputs_def describeStack_def andThen_def Let_def)

lemma provisionCluster_accepted:
  assumes "rejects E = (\<lambda>h c. None)"
  shows "\<exists>s'. provisionCluster E args outputs s = (Inr (), s') \<and>
           mapRoles s' = mapRoles s @
             [\<lparr>groups = [namespaceName args @ ''-admin-group''],
               rolearn = Some (namespaceName args @ ''-admin-'' @ clusterName args @ ''-k8s-role''),
               username = Some (namespaceName args @ ''-admin'')\<rparr>,
              \<lparr>groups = [namespaceName args @ ''-deployments-group''],
               rolearn = Some (namespaceName args @ ''-deployments-'' @ clusterName args @ ''-k8s-role''),
               username = Some (namespaceName args @ ''-deployments'')\<rparr>]"
proof -
  let ?s0 = "Logger_log ''create-namespace'' (''Creating namespace '' @ quoted (namespaceName args) @ ''...'') s"
  let ?a1 = "\<lparr>clusterName = clusterName args, namespaceName = namespaceName args,
                roleArn = outputs ''AdminKubernetesRole'', suffix = ''admin'', rbacRules = admin_rules\<rparr>"
  let ?a2 = "\<lparr>clusterName = clusterName args, namespaceName = namespaceName args,
                roleArn = outputs ''DeploymentsKubernetesRole'', suffix = ''deployments'', rbacRules = deployments_rules\<rparr>"
  let ?s1 = "add (RemoveNamespace (namespaceName args)) (accept (K8sCreateNamespace (namespaceName args)) ?s0)"
  have p: "perform E (K8sCreateNamespace (namespaceName args)) ?s0 = (Inr (), accept (K8sCreateNamespace (namespaceName args)) ?s0)"
    using assms by (simp add: perform_def)
  have m1: "mapRoles ?s1 = mapRoles s" by (simp add: add_def accept_def Logger_log_def)
  from user_accepted [OF assms, of ?a1 ?s1] obtain s2 where
    u1: "createKubernetesNamespaceUser E ?a1 ?s1 = (Inr (), s2)" and
    m2: "mapRoles s2 = mapRoles ?s1 @ [\<lparr>groups = [namespaceName args @ ''-admin-group''],
               rolearn = Some (namespaceName args @ ''-admin-'' @ clusterName args @ ''-k8s-role''),
               username = Some (namespaceName args @ ''-admin'')\<rparr>]"
    by auto
  from user_accepted [OF assms, of ?a2 s2] obtain s3 where
    u2: "createKubernetesNamespaceUser E ?a2 s2 = (Inr (), s3)" and
    m3: "mapRoles s3 = mapRoles s2 @ [\<lparr>groups = [namespaceName args @ ''-deployments-group''],
               rolearn = Some (namespaceName args @ ''-deployments-'' @ clusterName args @ ''-k8s-role''),
               username = Some (namespaceName args @ ''-deployments'')\<rparr>]"
    by auto
  have "provisionCluster E args outputs s = (Inr (), s3)"
    unfolding provisionCluster_def andThen_def using p u1 u2 by simp
  with m1 m2 m3 show ?thesis by simp
qed

section \<open>The name pattern\<close>

lemma range_chars:
  "set (atom_chars (Range lo hi)) = {c. (of_char lo::nat) \<le> of_char c \<and> (of_char c::nat) \<le> of_char hi}"
proof (rule set_eqI)
  fix c :: char
  have "c \<in> char_of ` {of_char lo ..< Suc (of_char hi :: nat)} \<longleftrightarrow>
          (of_char lo::nat) \<le> of_char c \<and> (of_char c::nat) \<le> of_char hi"
  proof
    assume "c \<in> char_of ` {of_char lo ..< Suc (of_char hi :: nat)}"
    then obtain k :: nat where k: "c = char_of k" "of_char lo \<le> k" "k \<le> of_char hi" by auto
    have "(of_char hi :: nat) < 256" by simp
    with k(3) have "k < 256" by (rule le_less_trans)
    then have "of_char c = k" using k(1) by simp
    with k show "(of_char lo::nat) \<le> of_char c \<and> (of_char c::nat) \<le> of_char hi" by simp
  next
    assume "(of_char lo::nat) \<le> of_char c \<and> (of_char c::nat) \<le> of_char hi"
    then have "(of_char c :: nat) \<in> {of_char lo ..< Suc (of_char hi)}" by simp
    then have "char_of (of_char c :: nat) \<in> char_of ` {of_char lo ..< Suc (of_char hi :: nat)}" by (rule imageI)
    then show "c \<in> char_of ` {of_char lo ..< Suc (of_char hi :: nat)}" by simp
  qed
  then show "c \<in> set (atom_chars (Range lo hi)) \<longleftrightarrow>
               c \<in> {c. (of_char lo::nat) \<le> of_char c \<and> (of_char c::nat) \<le> of_char hi}"
    by (simp only: atom_chars.simps set_map set_upt mem_Collect_eq)
qed

lemma of_char_Canonicalize:
  "(of_char (Canonicalize c) :: nat) =
     (if (97::nat) \<le> of_char c \<and> of_char c \<le> (122::nat) then of_char c - 32 else of_char c)"
proof -
  have "(of_char c :: nat) - 32 < 256" using of_char_mod_256 [of c, where ?'a = nat]
    by (metis less_imp_diff_less mod_less_divisor zero_less_numeral)
  then show ?thesis by (simp add: Canonicalize_def)
qed

lemma Canonicalize_eq:
  "Canonicalize m = Canonicalize c \<longleftrightarrow> (of_char (Canonicalize m) :: nat) = of_char (Canonicalize c)"
  by auto

lemma first_class_letter: "class_matches_i first_class c \<longleftrightarrow> ascii_letter c"
proof -
  have "class_matches_i first_class c \<longleftrightarrow>
          (\<exists>m. (97::nat) \<le> of_char m \<and> of_char m \<le> (122::nat) \<and> Canonicalize m = Canonicalize c)"
    unfolding class_matches_i_def first_class_def
    by (simp only: list.map concat.simps append_Nil2 range_chars) auto
  also have "\<dots> \<longleftrightarrow> ascii_letter c"
  proof
    assume "\<exists>m. (97::nat) \<le> of_char m \<and> of_char m \<le> (122::nat) \<and> Canonicalize m = Canonicalize c"
    then show "ascii_letter c"
      by (auto simp: Canonicalize_eq of_char_Canonicalize Let_def ascii_letter_def split: if_splits)
  next
    assume l: "ascii_letter c"
    let ?n = "of_char c :: nat"
    let ?m = "char_of (if ?n \<le> 90 then ?n + 32 else ?n) :: char"
    have "(97::nat) \<le> of_char ?m \<and> of_char ?m \<le> (122::nat) \<and> Canonicalize ?m = Canonicalize c"
      using l by (auto simp: Canonicalize_eq of_char_Canonicalize Let_def ascii_letter_def)
    then show "\<exists>m. (97::nat) \<le> of_char m \<and> of_char m \<le> (122::nat) \<and> Canonicalize m = Canonicalize c" ..
  qed
  finally show ?thesis .
qed

lemma rest_class_char:
  "class_matches_i rest_class c \<longleftrightarrow> ascii_letter c \<or> ascii_digit c \<or> c = CHR ''-''"
proof -
  have dash: "\<And>x. Canonicalize x = CHR ''-'' \<longleftrightarrow> x = CHR ''-''"
  proof -
    fix x
    have "Canonicalize x = CHR ''-'' \<longleftrightarrow> (of_char (Canonicalize x) :: nat) = of_char (CHR ''-'')"
      by (simp only: of_char_eq_iff)
    also have "\<dots> \<longleftrightarrow> (of_char x :: nat) = of_char (CHR ''-'')" by (auto simp: of_char_Canonicalize)
    also have "\<dots> \<longleftrightarrow> x = CHR ''-''" by (simp only: of_char_eq_iff)
    finally show "Canonicalize x = CHR ''-'' \<longleftrightarrow> x = CHR ''-''" .
  qed
  have digit: "\<And>m. (48::nat) \<le> of_char m \<and> of_char m \<le> (57::nat) \<Longrightarrow> Canonicalize m = m"
    by (simp add: Canonicalize_def)
  have "class_matches_i rest_class c \<longleftrightarrow>
          class_matches_i first_class c \<or>
          (\<exists>m. (48::nat) \<le> of_char m \<and> of_char m \<le> (57::nat) \<and> Canonicalize m = Canonicalize c) \<or>
          Canonicalize (CHR ''-'') = Canonicalize c"
    unfolding class_matches_i_def first_class_def rest_class_def
    by (simp only: list.map concat.simps append_Nil2 set_append range_chars atom_chars.simps(2)) auto
  also have "(\<exists>m. (48::nat) \<le> of_char m \<and> of_char m \<le> (57::nat) \<and> Canonicalize m = Canonicalize c) \<longleftrightarrow> ascii_digit c"
  proof
    assume "\<exists>m. (48::nat) \<le> of_char m \<and> of_char m \<le> (57::nat) \<and> Canonicalize m = Canonicalize c"
    then show "ascii_digit c"
      by (auto simp: Canonicalize_eq of_char_Canonicalize Let_def ascii_digit_def split: if_splits)
  next
    assume "ascii_digit c"
    then have "(48::nat) \<le> of_char c \<and> of_char c \<le> (57::nat) \<and> Canonicalize c = Canonicalize c"
      by (simp add: ascii_digit_def Let_def)
    then show "\<exists>m. (48::nat) \<le> of_char m \<and> of_char m \<le> (57::nat) \<and> Canonicalize m = Canonicalize c" ..
  qed
  also have "Canonicalize (CHR ''-'') = Canonicalize c \<longleftrightarrow> c = CHR ''-''"
    using dash [of c] by (auto simp: Canonicalize_def)
  finally show ?thesis by (simp add: first_class_letter)
qed

lemma namespace_name_invalid_iff:
  "namespace_name_invalid n \<longleftrightarrow> \<not> name_matches_ignoring_case n"
  by (cases n)
     (simp_all add: namespace_name_invalid_def namespace_pattern_match_def name_matches_ignoring_case_def
        first_class_letter rest_class_char list_all_iff)

section \<open>Whole runs of \<open>create-namespace\<close>\<close>

lemma accept_all_eq: "accept_all = (\<lambda>h c. None)"
  by (intro ext) (simp add: accept_all_def)

lemma createNamespace_invalid:
  "namespace_name_invalid (namespaceName args) \<Longrightarrow>
     createNamespace E args s = Some (Inl (Error (''Namespace name is invalid: '' @ namespaceName args)), s)"
  by (simp add: createNamespace_def createStack_def)

lemma createStack_valid_calls:
  assumes "\<not> namespace_name_invalid (namespaceName args)" "createStack E args s = (r, s1)"
  shows "prefix (calls s @ [MakeDir (''./namespaces/'' @ namespaceName args)]) (calls s1)"
  using assms unfolding createStack_def Let_def andThen_def perform_def
  by (auto simp: accept_def add_def Logger_log_def split: option.splits)

lemma createNamespace_valid_calls:
  assumes "\<not> namespace_name_invalid (namespaceName args)" "createNamespace E args s = Some (r, s')"
  shows "prefix (calls s @ [MakeDir (''./namespaces/'' @ namespaceName args)]) (calls s')"
proof -
  from createNamespace_from_createStack [OF assms(2)] obtain r1 s1
    where c: "createStack E args s = (r1, s1)" and a: "advances s1 s'" by blast
  from a have "prefix (calls s1) (calls s')" by (simp add: advances_def)
  with createStack_valid_calls [OF assms(1) c] show ?thesis by (rule prefix_order.trans)
qed

lemma createNamespace_accepted:
  assumes acc: "rejects E = (\<lambda>h c. None)"
    and replies: "describeStacks_replies E = Inr (Some [st1]) # Inr (Some [st2]) # rest"
    and st1: "StackStatus st1 \<noteq> ''CREATE_IN_PROGRESS''"
    and st2: "StackStatus st2 = ''CREATE_COMPLETE''"
    and valid: "\<not> namespace_name_invalid (namespaceName args)"
  shows "\<exists>s'. createNamespace E args s = Some (Inr (), s') \<and>
           mapRoles s' = mapRoles s @
             [\<lparr>groups = [namespaceName args @ ''-admin-group''],
               rolearn = Some (namespaceName args @ ''-admin-'' @ clusterName args @ ''-k8s-role''),
               username = Some (namespaceName args @ ''-admin'')\<rparr>,
              \<lparr>groups = [namespaceName args @ ''-deployments-group''],
               rolearn = Some (namespaceName args @ ''-deployments-'' @ clusterName args @ ''-k8s-role''),
               username = Some (namespaceName args @ ''-deployments'')\<rparr>] \<and>
           CreateStack (namespaceName args @ ''-namespace'') (namespaceName args) \<in> set (calls s')"
proof -
  let ?n = "namespaceName args @ ''-namespace''"
  from createStack_accepted [OF acc valid, of s] obtain s1 where
    c1: "createStack E args s = (Inr ?n, s1)" and m1: "mapRoles s1 = mapRoles s" and
    k1: "calls s1 = calls s @ [MakeDir (''./namespaces/'' @ namespaceName args), CreateStack ?n (namespaceName args)]"
    by blast
  let ?s2 = "s1\<lparr>calls := calls s1 @ [DescribeStacks ?n]\<rparr>"
  let ?s3 = "?s2\<lparr>calls := calls ?s2 @ [DescribeStacks ?n]\<rparr>"
  let ?outs = "collect_outputs (case Outputs st2 of None \<Rightarrow> [] | Some outs \<Rightarrow> outs)"
  have pl: "poll_loop E ?n (describeStacks_replies E) (describeStackEvents_replies E)
              \<lparr>publishedEventIds = [], surfaced = []\<rparr> s1 = Some (Inr (Inr (Some [st2]) # rest),
              \<lparr>publishedEventIds = [], surfaced = []\<rparr>, ?s2)"
    unfolding replies using st1 by (rule poll_loop_done)
  have so: "stackOutputs ?n (Inr (Some [st2])) ?s2 = (Inr ?outs, ?s3)"
    using st2 by (rule stackOutputs_complete)
  from provisionCluster_accepted [OF acc, of args ?outs ?s3] obtain s4 where
    pc: "provisionCluster E args ?outs ?s3 = (Inr (), s4)" and
    m4: "mapRoles s4 = mapRoles ?s3 @
             [\<lparr>groups = [namespaceName args @ ''-admin-group''],
               rolearn = Some (namespaceName args @ ''-admin-'' @ clusterName args @ ''-k8s-role''),
               username = Some (namespaceName args @ ''-admin'')\<rparr>,
              \<lparr>groups = [namespaceName args @ ''-deployments-group''],
               rolearn = Some (namespaceName args @ ''-deployments-'' @ clusterName args @ ''-k8s-role''),
               username = Some (namespaceName args @ ''-deployments'')\<rparr>]"
    by blast
  have run: "createNamespace E args s = Some (Inr (), s4)"
    unfolding createNamespace_def using c1 pl so pc by (simp add: andThen_def)
  have "prefix (calls ?s3) (calls s4)"
    using provisionCluster_advances [OF pc] by (simp add: advances_def)
  then have "set (calls ?s3) \<subseteq> set (calls s4)" by (rule set_mono_prefix)
  then have "CreateStack ?n (namespaceName args) \<in> set (calls s4)" using k1 by auto
  with run m4 m1 show ?thesis by simp
qed

section \<open>Runs of the scenarios\<close>

lemma team_a_valid: "\<not> namespace_name_invalid ''team-a''"
  by (simp add: namespace_name_invalid_iff name_matches_ignoring_case_def ascii_letter_def ascii_digit_def)

lemma Team_A_matches: "name_matches_ignoring_case ''Team-A''"
  by (simp add: name_matches_ignoring_case_def ascii_letter_def ascii_digit_def)

lemma converged_run:
  assumes "\<not> namespace_name_invalid (namespaceName args)"
  shows "\<exists>s'. createNamespace (scripted accept_all [converged, converged] []) args s = Some (Inr (), s') \<and>
           mapRoles s' = mapRoles s @
             [\<lparr>groups = [namespaceName args @ ''-admin-group''],
               rolearn = Some (namespaceName args @ ''-admin-'' @ clusterName args @ ''-k8s-role''),
               username = Some (namespaceName args @ ''-admin'')\<rparr>,
              \<lparr>groups = [namespaceName args @ ''-deployments-group''],
               rolearn = Some (namespaceName args @ ''-deployments-'' @ clusterName args @ ''-k8s-role''),
               username = Some (namespaceName args @ ''-deployments'')\<rparr>] \<and>
           CreateStack (namespaceName args @ ''-namespace'') (namespaceName args) \<in> set (calls s')"
proof -
  have acc: "rejects (scripted accept_all [converged, converged] []) = (\<lambda>h c. None)"
    by (simp add: scripted_def accept_all_eq)
  have replies: "describeStacks_replies (scripted accept_all [converged, converged] []) =
                   Inr (Some [converged_stack]) # Inr (Some [converged_stack]) # []"
    by (simp add: scripted_def converged_def)
  have st: "StackStatus converged_stack \<noteq> ''CREATE_IN_PROGRESS''" "StackStatus converged_stack = ''CREATE_COMPLETE''"
    by (simp_all add: converged_stack_def)
  show ?thesis by (rule createNamespace_accepted [OF acc replies st assms])
qed

lemmas run_defs =
  createNamespace_def createStack_def scripted_def team_a_def empty_state_def
  converged_def converged_stack_def stack_in_def andThen_def perform_def accept_def add_def Logger_log_def Let_def
  getStackStatus_def describeStack_def stackOutputs_def provisionCluster_def createKubernetesNamespaceUser_def
  readMapRoles_def replaceMapRoles_def collect_outputs_def thrown_def after_run_def

section \<open>The polling loop\<close>

lemma JSON_parse_empty_object: "JSON_parse ''{}'' = Some (JObject [])"
  by code_simp

lemma JSON_parse_not_json: "JSON_parse ''not json'' = None"
  by code_simp

lemma resource_name_absent:
  assumes "ResourceProperties e = None \<or> ResourceProperties e = Some []"
  shows "resource_name E e = Inr None"
  using assms by (auto simp: resource_name_def JSON_parse_empty_object own_properties_def)

lemma event_line_absent:
  assumes "ResourceProperties e = None \<or> ResourceProperties e = Some []"
  shows "event_line E e =
           Inr (template_str (ResourceType e) @ '' | '' @ template_str (ResourceStatus e)
                  @ (case ResourceStatusReason e of None \<Rightarrow> [] | Some r \<Rightarrow> if r = [] then [] else '' | '' @ r))"
  by (simp add: event_line_def resource_name_absent [OF assms])

lemma publish_each_prefix:
  "publish_each E es p s = (r, p', s') \<Longrightarrow>
     \<exists>k. k \<le> length es \<and> surfaced p' = surfaced p @ take k es \<and>
         (case r of
            Inr u \<Rightarrow> k = length es \<and> publishedEventIds p' = publishedEventIds p @ map EventId es
          | Inl err \<Rightarrow> k < length es \<and> publishedEventIds p' = publishedEventIds p @ map EventId (take (Suc k) es))"
proof (induction es arbitrary: p s)
  case Nil
  then show ?case by auto
next
  case (Cons e es)
  let ?p1 = "p\<lparr>publishedEventIds := publishedEventIds p @ [EventId e]\<rparr>"
  show ?case
  proof (cases "event_line E e")
    case (Inl err)
    with Cons.prems have "r = Inl err" "p' = ?p1" by (simp_all add: Let_def)
    then show ?thesis by (intro exI [of _ 0]) simp
  next
    case (Inr line)
    let ?p2 = "?p1\<lparr>surfaced := surfaced ?p1 @ [e]\<rparr>"
    from Cons.prems Inr have "publish_each E es ?p2 (Logger_log ''create-namespace|CloudFormation'' line s) = (r, p', s')"
      by (simp add: Let_def)
    from Cons.IH [OF this] obtain k where k: "k \<le> length es" "surfaced p' = surfaced ?p2 @ take k es"
      "(case r of
            Inr u \<Rightarrow> k = length es \<and> publishedEventIds p' = publishedEventIds ?p2 @ map EventId es
          | Inl err \<Rightarrow> k < length es \<and> publishedEventIds p' = publishedEventIds ?p2 @ map EventId (take (Suc k) es))"
      by blast
    have p2: "surfaced ?p2 = surfaced p @ [e]" "publishedEventIds ?p2 = publishedEventIds p @ [EventId e]"
      by simp_all
    have a: "Suc k \<le> length (e # es)" using k(1) by simp
    have b: "surfaced p' = surfaced p @ take (Suc k) (e # es)" unfolding k(2) p2 by simp
    have c: "(case r of
            Inr u \<Rightarrow> Suc k = length (e # es) \<and> publishedEventIds p' = publishedEventIds p @ map EventId (e # es)
          | Inl err \<Rightarrow> Suc k < length (e # es) \<and>
              publishedEventIds p' = publishedEventIds p @ map EventId (take (Suc (Suc k)) (e # es)))"
    proof (cases r)
      case (Inl err)
      with k(3) have "k < length es" "publishedEventIds p' = publishedEventIds ?p2 @ map EventId (take (Suc k) es)"
        by simp_all
      then show ?thesis unfolding p2 Inl by simp
    next
      case (Inr u)
      with k(3) have "k = length es" "publishedEventIds p' = publishedEventIds ?p2 @ map EventId es" by simp_all
      then show ?thesis unfolding p2 Inr by simp
    qed
    show ?thesis by (rule exI [of _ "Suc k"]) (intro conjI a b c)
  qed
qed


lemma distinct_new_events:
  assumes "distinct (map EventId batch)"
  shows "distinct (map EventId (new_events published batch))"
proof -
  have "mset (map EventId (sort_key Timestamp batch)) = mset (map EventId batch)" by simp
  then have "distinct (map EventId (sort_key Timestamp batch)) = distinct (map EventId batch)"
    by (rule mset_eq_imp_distinct_iff)
  with assms have "distinct (map EventId (sort_key Timestamp batch))" by blast
  then show ?thesis unfolding new_events_def by (rule distinct_map_filter)
qed

lemma new_events_unpublished:
  "set (map EventId (new_events published batch)) \<inter> set published = {}"
  by (auto simp: new_events_def)

lemma publish_batch_tidy:
  assumes rep: "no_repeated_id (Inr StackEvents)"
    and dist: "distinct (publishedEventIds p)"
    and same: "map EventId (surfaced p) = publishedEventIds p"
    and run: "publish_batch E StackEvents p s = (r, p', s')"
  shows "distinct (publishedEventIds p')"
    and "prefix (map EventId (surfaced p')) (publishedEventIds p')"
    and "r = Inr u \<Longrightarrow> map EventId (surfaced p') = publishedEventIds p'"
proof -
  let ?batch = "case StackEvents of None \<Rightarrow> [] | Some es \<Rightarrow> es"
  let ?new = "new_events (publishedEventIds p) ?batch"
  have "distinct (map EventId ?batch)"
    using rep by (cases StackEvents) (simp_all add: no_repeated_id_def)
  then have dn: "distinct (map EventId ?new)" by (rule distinct_new_events)
  have un: "set (map EventId ?new) \<inter> set (publishedEventIds p) = {}" by (rule new_events_unpublished)
  from run have "publish_each E ?new p s = (r, p', s')" by (simp add: publish_batch_def)
  from publish_each_prefix [OF this] obtain k where
    k: "k \<le> length ?new" "surfaced p' = surfaced p @ take k ?new"
       "(case r of
            Inr u \<Rightarrow> k = length ?new \<and> publishedEventIds p' = publishedEventIds p @ map EventId ?new
          | Inl err \<Rightarrow> k < length ?new \<and> publishedEventIds p' = publishedEventIds p @ map EventId (take (Suc k) ?new))"
    by blast
  have tk: "\<And>j. distinct (publishedEventIds p @ map EventId (take j ?new))"
  proof -
    fix j
    have "distinct (map EventId (take j ?new))" using dn by (simp add: take_map [symmetric])
    moreover have "set (map EventId (take j ?new)) \<subseteq> set (map EventId ?new)"
      by (metis set_take_subset take_map)
    ultimately show "distinct (publishedEventIds p @ map EventId (take j ?new))"
      using dist un by auto
  qed
  have pk: "prefix (map EventId (surfaced p @ take k ?new))
                 (publishedEventIds p @ map EventId (take (Suc k) ?new))"
  proof -
    have "take k ?new = take k (take (Suc k) ?new)" by simp
    then have "prefix (take k ?new) (take (Suc k) ?new)" by (metis take_is_prefix)
    then have "prefix (map EventId (take k ?new)) (map EventId (take (Suc k) ?new))" by (rule map_mono_prefix)
    then show ?thesis by (simp add: same)
  qed
  show "distinct (publishedEventIds p')"
  proof (cases r)
    case (Inl err)
    with k(3) show ?thesis using tk [of "Suc k"] by simp
  next
    case (Inr v)
    with k(3) show ?thesis using tk [of "length ?new"] by simp
  qed
  show "prefix (map EventId (surfaced p')) (publishedEventIds p')"
  proof (cases r)
    case (Inl err)
    with k(3) have "publishedEventIds p' = publishedEventIds p @ map EventId (take (Suc k) ?new)" by simp
    then show ?thesis unfolding k(2) using pk by simp
  next
    case (Inr v)
    with k(3) have "k = length ?new" "publishedEventIds p' = publishedEventIds p @ map EventId ?new" by simp_all
    then show ?thesis unfolding k(2) by (simp add: same)
  qed
  show "map EventId (surfaced p') = publishedEventIds p'" if "r = Inr u"
  proof -
    from that k(3) have "k = length ?new" "publishedEventIds p' = publishedEventIds p @ map EventId ?new" by simp_all
    then show ?thesis unfolding k(2) by (simp add: same)
  qed
qed

lemma poll_loop_tidy:
  assumes "list_all no_repeated_id evs"
    and "distinct (publishedEventIds p)"
    and "map EventId (surfaced p) = publishedEventIds p"
    and "poll_loop E n ds evs p s = Some (r, p', s')"
  shows "distinct (publishedEventIds p') \<and> prefix (map EventId (surfaced p')) (publishedEventIds p')"
  using assms
proof (induction ds arbitrary: evs p s)
  case Nil
  then show ?case by simp
next
  case (Cons d ds)
  note run = Cons.prems(4)
  have here: "distinct (publishedEventIds p) \<and> prefix (map EventId (surfaced p)) (publishedEventIds p)"
    using Cons.prems(2,3) by simp
  obtain r1 s1 where g: "getStackStatus n d s = (r1, s1)" by (cases "getStackStatus n d s")
  show ?case
  proof (cases r1)
    case (Inl err)
    with run g have "p' = p" by simp
    with here show ?thesis by simp
  next
    case (Inr status)
    show ?thesis
    proof (cases "status = ''CREATE_IN_PROGRESS''")
      case False
      with run g Inr have "p' = p" by simp
      with here show ?thesis by simp
    next
      case True
      show ?thesis
      proof (cases evs)
        case Nil
        with run g Inr True show ?thesis by simp
      next
        case (Cons ev evs')
        let ?s2 = "s1\<lparr>calls := calls s1 @ [DescribeStackEvents n]\<rparr>"
        from Cons Cons.prems(1) have rep: "no_repeated_id ev" "list_all no_repeated_id evs'" by simp_all
        show ?thesis
        proof (cases ev)
          case (Inl err)
          with run g Inr True Cons have "p' = p" by (simp add: Let_def)
          with here show ?thesis by simp
        next
          case ev: (Inr StackEvents)
          obtain r3 p3 s3 where pb: "publish_batch E StackEvents p ?s2 = (r3, p3, s3)"
            by (cases "publish_batch E StackEvents p ?s2")
          from rep(1) ev have rep1: "no_repeated_id (Inr StackEvents)" by simp
          note t = publish_batch_tidy [OF rep1 Cons.prems(2,3) pb]
          show ?thesis
          proof (cases r3)
            case (Inl err)
            with run g \<open>r1 = Inr status\<close> True Cons ev pb have "p' = p3" by (simp add: Let_def)
            with t(1,2) show ?thesis by simp
          next
            case r3: (Inr u)
            obtain r4 s4 where sl: "perform E (Sleep 1500) s3 = (r4, s4)" by (cases "perform E (Sleep 1500) s3")
            show ?thesis
            proof (cases r4)
              case (Inl err)
              with run g \<open>r1 = Inr status\<close> True Cons ev pb r3 sl have "p' = p3" by (simp add: Let_def)
              with t(1,2) show ?thesis by simp
            next
              case r4: (Inr u4)
              have "poll_loop E n ds evs' p3 s4 = Some (r, p', s')"
                using run g \<open>r1 = Inr status\<close> True Cons ev pb r3 sl r4 by (simp add: Let_def)
              from Cons.IH [OF rep(2) t(1) t(3) [OF r3] this] show ?thesis .
            qed
          qed
        qed
      qed
    qed
  qed
qed

lemma event_line_plain:
  "event_line E (event i t None) = Inr ''AWS::IAM::Role | CREATE_IN_PROGRESS''"
  by (simp add: event_line_absent event_def template_str_def)

lemmas poll_defs =
  scripted_def empty_state_def empty_poller_def stack_in_def converged_def converged_stack_def
  getStackStatus_def describeStack_def andThen_def Let_def publish_batch_def new_events_def
  perform_def accept_def accept_all_def Logger_log_def observed_def event_line_plain

section \<open>The orchestrator: forward pass and unwind\<close>

lemma forward_pass_append:
  "forward_pass act compensate (xs @ ys) sequence w =
     (case forward_pass act compensate xs sequence w of
        (None, sequence', w') \<Rightarrow> forward_pass act compensate ys sequence' w'
      | (Some e, sequence', w') \<Rightarrow> (Some e, sequence', w'))"
  by (induction xs arbitrary: sequence w) (auto split: prod.splits sum.splits)

lemma unwind_each_invoked: "fst (unwind_each invoke cs w) = cs"
proof (induction cs arbitrary: w)
  case Nil
  show ?case by simp
next
  case (Cons c cs)
  obtain failure w1 where i: "invoke c w = (failure, w1)" by (cases "invoke c w")
  obtain called failures w2 where u: "unwind_each invoke cs w1 = (called, failures, w2)"
    by (cases "unwind_each invoke cs w1")
  from Cons [of w1] u have "called = cs" by simp
  with i u show ?case by simp
qed

lemma succeed_all_length:
  "succeed_all act xs w = Some (outs, w1) \<Longrightarrow> length outs = length xs"
  by (induction xs arbitrary: w outs) (auto split: prod.splits sum.splits option.splits)

lemma forward_pass_succeed_all:
  "succeed_all act xs w = Some (outs, w1) \<Longrightarrow>
     forward_pass act compensate xs sequence w = (None, sequence @ map2 compensate xs outs, w1)"
proof (induction xs arbitrary: w outs sequence)
  case Nil
  then show ?case by simp
next
  case (Cons a xs)
  obtain r wa where a: "act a w = (r, wa)" by (cases "act a w")
  from Cons.prems a obtain out where r: "r = Inr out" by (cases r) auto
  from Cons.prems a r obtain outs' where
    rest: "succeed_all act xs wa = Some (outs', w1)" and outs: "outs = out # outs'"
    by (auto split: option.splits)
  from Cons.IH [OF rest, of "sequence @ [compensate a out]"] a r outs show ?case by simp
qed

lemma unwind_each_final:
  "snd (snd (unwind_each invoke cs w)) = foldl (\<lambda>w c. snd (invoke c w)) w cs"
proof (induction cs arbitrary: w)
  case Nil
  show ?case by simp
next
  case (Cons c cs)
  obtain failure w1 where i: "invoke c w = (failure, w1)" by (cases "invoke c w")
  obtain called failures w2 where u: "unwind_each invoke cs w1 = (called, failures, w2)"
    by (cases "unwind_each invoke cs w1")
  from Cons [of w1] u have "w2 = foldl (\<lambda>w c. snd (invoke c w)) w1 cs" by simp
  with i u show ?case by simp
qed

section \<open>The claims\<close>

text \<open>
  C1. The role identity recorded in the two mapping entries is not the stack output. In
  the run below the stack converges with the outputs \<open>AdminKubernetesRole = arn:admin\<close>
  and \<open>DeploymentsKubernetesRole = arn:deploy\<close>, every request is accepted and the run
  ends without an error; the \<open>rolearn\<close> of the two entries appended to the mapping
  document are the names built from namespace, suffix and cluster.
\<close>

theorem rolearn_is_built_from_names:
  "(\<exists>outputs. fst (stackOutputs ''team-a-namespace'' converged empty_state) = Inr outputs \<and>
       outputs ''AdminKubernetesRole'' = Some ''arn:admin'' \<and>
       outputs ''DeploymentsKubernetesRole'' = Some ''arn:deploy'') \<and>
   createNamespace (scripted accept_all [converged, converged] []) team_a empty_state \<noteq> None \<and>
   thrown (createNamespace (scripted accept_all [converged, converged] []) team_a empty_state) = None \<and>
   map rolearn (mapRoles (after_run (createNamespace (scripted accept_all [converged, converged] [])
                                       team_a empty_state) empty_state)) =
     [Some ''team-a-admin-c1-k8s-role'', Some ''team-a-deployments-c1-k8s-role'']"
proof -
  have v: "\<not> namespace_name_invalid (namespaceName team_a)"
    using team_a_valid by (simp add: team_a_def)
  from converged_run [OF v, of empty_state] obtain s' where
    run: "createNamespace (scripted accept_all [converged, converged] []) team_a empty_state = Some (Inr (), s')"
    and m: "map rolearn (mapRoles s') = [Some ''team-a-admin-c1-k8s-role'', Some ''team-a-deployments-c1-k8s-role'']"
    by (auto simp: team_a_def empty_state_def)
  have o: "\<exists>outputs. fst (stackOutputs ''team-a-namespace'' converged empty_state) = Inr outputs \<and>
       outputs ''AdminKubernetesRole'' = Some ''arn:admin'' \<and>
       outputs ''DeploymentsKubernetesRole'' = Some ''arn:deploy''"
    by (simp add: stackOutputs_def describeStack_def andThen_def Let_def converged_def converged_stack_def
          collect_outputs_def)
  from run m o show ?thesis by (simp add: thrown_def after_run_def)
qed

text \<open>
  C2. When the first \<open>k - 1\<close> forward actions succeed, with the outputs \<open>outs\<close>, and
  action \<open>k\<close> fails with \<open>e\<close>, the orchestrator invokes exactly the compensations
  registered for those \<open>k - 1\<close> actions (the compensation of each action bound to its
  output), in the reverse of the order of their registration: the world it ends in is
  the world the failed action has left with these compensations applied to it one after
  the other, the most recently registered first, whether or not one of them fails. The
  failure it then raises to the caller is \<open>e\<close>.
\<close>

theorem unwind_after_failure_of_action_k:
  assumes "1 \<le> k" and "k \<le> length actions"
    and "succeed_all act (take (k - 1) actions) w = Some (outs, w1)"
    and "act (actions ! (k - 1)) w1 = (Inl e, w2)"
  shows "raised (runForward act compensate invoke actions w) = Some e \<and>
         invoked (runForward act compensate invoke actions w) =
           rev (map2 compensate (take (k - 1) actions) outs) \<and>
         length (invoked (runForward act compensate invoke actions w)) = k - 1 \<and>
         final (runForward act compensate invoke actions w) =
           foldl (\<lambda>w c. snd (invoke c w)) w2 (rev (map2 compensate (take (k - 1) actions) outs))"
proof -
  define pre where "pre = take (k - 1) actions"
  define a where "a = actions ! (k - 1)"
  define post where "post = drop (Suc (k - 1)) actions"
  define registered where "registered = map2 compensate pre outs"
  from assms(1,2) have i: "k - 1 < length actions" by simp
  have split: "actions = pre @ a # post"
    unfolding pre_def a_def post_def using i by (rule id_take_nth_drop)
  have a3: "succeed_all act pre w = Some (outs, w1)"
    unfolding pre_def by (rule assms(3))
  have a4: "act a w1 = (Inl e, w2)"
    unfolding a_def by (rule assms(4))
  have "forward_pass act compensate pre [] w = (None, [] @ registered, w1)"
    unfolding registered_def using a3 by (rule forward_pass_succeed_all)
  then have "forward_pass act compensate (pre @ a # post) [] w = (Some e, registered, w2)"
    by (simp add: forward_pass_append a4)
  then have fp: "forward_pass act compensate actions [] w = (Some e, registered, w2)"
    using split by simp
  obtain called failures w3 where u: "unwind invoke registered w2 = (called, failures, w3)"
    by (cases "unwind invoke registered w2")
  have c: "called = rev registered"
    using u unwind_each_invoked [of invoke "rev registered" w2] by (simp add: unwind_def)
  have f: "w3 = foldl (\<lambda>w c. snd (invoke c w)) w2 (rev registered)"
    using u unwind_each_final [of invoke "rev registered" w2] by (simp add: unwind_def)
  have "length outs = length pre" using a3 by (rule succeed_all_length)
  then have l: "length registered = k - 1"
    using i by (simp add: registered_def pre_def)
  have r: "runForward act compensate invoke actions w =
             \<lparr>raised = Some e, invoked = called, unwind_failures = failures, final = w3\<rparr>"
    using fp u by (simp add: runForward_def)
  show ?thesis
    unfolding r using c f l by (simp add: registered_def pre_def)
qed

theorem unwind_after_failure_of_action_k_witness:
  "raised (runForward (perform (scripted (reject_role_of ''team-a-admin-role'') [] [])) undo_of
             (invoke_closure (scripted (reject_role_of ''team-a-admin-role'') [] []))
             three_actions empty_state) = Some (Rejected ''Forbidden'') \<and>
   invoked (runForward (perform (scripted (reject_role_of ''team-a-admin-role'') [] [])) undo_of
              (invoke_closure (scripted (reject_role_of ''team-a-admin-role'') [] []))
              three_actions empty_state) = [RemoveNamespace ''team-a'', RemoveStack ''team-a-namespace''] \<and>
   calls (final (runForward (perform (scripted (reject_role_of ''team-a-admin-role'') [] [])) undo_of
                   (invoke_closure (scripted (reject_role_of ''team-a-admin-role'') [] []))
                   three_actions empty_state)) =
     [CreateStack ''team-a-namespace'' ''team-a'', K8sCreateNamespace ''team-a'',
      CreateNamespacedRole ''team-a'' ''team-a-admin-role'' admin_rules,
      K8sDeleteNamespace ''team-a'', DeleteStack ''team-a-namespace'',
      WaitForStackDeleteComplete ''team-a-namespace''] \<and>
   effects (final (runForward (perform (scripted (reject_role_of ''team-a-admin-role'') [] [])) undo_of
                     (invoke_closure (scripted (reject_role_of ''team-a-admin-role'') [] []))
                     three_actions empty_state)) =
     [CreateStack ''team-a-namespace'' ''team-a'', K8sCreateNamespace ''team-a'',
      K8sDeleteNamespace ''team-a'', DeleteStack ''team-a-namespace'']"
proof -
  let ?E = "scripted (reject_role_of ''team-a-admin-role'') [] []"
  let ?w1 = "accept (K8sCreateNamespace ''team-a'') (accept (CreateStack ''team-a-namespace'' ''team-a'') empty_state)"
  let ?w2 = "?w1\<lparr>calls := calls ?w1 @ [CreateNamespacedRole ''team-a'' ''team-a-admin-role'' admin_rules]\<rparr>"
  let ?undone = "foldl (\<lambda>w c. snd (invoke_closure ?E c w)) ?w2
                   [RemoveNamespace ''team-a'', RemoveStack ''team-a-namespace'']"
  define R where "R = runForward (perform ?E) undo_of (invoke_closure ?E) three_actions empty_state"
  have h1: "(1::nat) \<le> 3" by simp
  have h2: "3 \<le> length three_actions" by (simp add: three_actions_def)
  have h3: "succeed_all (perform ?E) (take (3 - 1) three_actions) empty_state = Some ([(), ()], ?w1)"
    by (simp add: three_actions_def scripted_def reject_role_of_def perform_def)
  have h4: "perform ?E (three_actions ! (3 - 1)) ?w1 = (Inl (Rejected ''Forbidden''), ?w2)"
    by (simp add: three_actions_def scripted_def reject_role_of_def perform_def)
  have cs: "rev (map2 undo_of (take (3 - 1) three_actions) [(), ()]) =
              [RemoveNamespace ''team-a'', RemoveStack ''team-a-namespace'']"
    by (simp add: three_actions_def)
  from unwind_after_failure_of_action_k [OF h1 h2 h3 h4, of undo_of "invoke_closure ?E"]
  have t: "raised R = Some (Rejected ''Forbidden'')"
    "invoked R = [RemoveNamespace ''team-a'', RemoveStack ''team-a-namespace'']"
    "final R = ?undone"
    unfolding cs R_def by blast+
  have "calls ?undone =
     [CreateStack ''team-a-namespace'' ''team-a'', K8sCreateNamespace ''team-a'',
      CreateNamespacedRole ''team-a'' ''team-a-admin-role'' admin_rules,
      K8sDeleteNamespace ''team-a'', DeleteStack ''team-a-namespace'',
      WaitForStackDeleteComplete ''team-a-namespace'']"
    "effects ?undone =
     [CreateStack ''team-a-namespace'' ''team-a'', K8sCreateNamespace ''team-a'',
      K8sDeleteNamespace ''team-a'', DeleteStack ''team-a-namespace'']"
    by (simp_all add: invoke_closure_def scripted_def reject_role_of_def perform_def
          andThen_def accept_def Logger_log_def empty_state_def)
  with t show ?thesis unfolding R_def by simp
qed




text \<open>
  C4. An event whose \<open>ResourceProperties\<close> is absent or the empty string does not make
  the surfacing fail: the payload is read as \<open>{}\<close>, the line logged has no resource name
  between the type and the status, and the loop goes on with the next event. (A payload
  that is present and is not JSON makes \<open>JSON.parse\<close> throw; nothing catches it, so the
  error ends the polling and the command.)
\<close>

theorem absent_payload_is_neutral:
  assumes "ResourceProperties e = None \<or> ResourceProperties e = Some []"
  shows "publish_each E (e # es) p s =
           publish_each E es
             (p\<lparr>publishedEventIds := publishedEventIds p @ [EventId e], surfaced := surfaced p @ [e]\<rparr>)
             (Logger_log ''create-namespace|CloudFormation''
                (template_str (ResourceType e) @ '' | '' @ template_str (ResourceStatus e)
                   @ (case ResourceStatusReason e of None \<Rightarrow> [] | Some r \<Rightarrow> if r = [] then [] else '' | '' @ r))
                s)"
proof -
  have "event_line E e =
          Inr (template_str (ResourceType e) @ '' | '' @ template_str (ResourceStatus e)
                 @ (case ResourceStatusReason e of None \<Rightarrow> [] | Some r \<Rightarrow> if r = [] then [] else '' | '' @ r))"
    using assms by (rule event_line_absent)
  then show ?thesis by (simp add: Let_def)
qed

theorem absent_payload_is_neutral_witness:
  "publish_each (scripted accept_all [] []) [event ''A'' 5 None] empty_poller empty_state =
     (Inr (), \<lparr>publishedEventIds = [''A''], surfaced = [event ''A'' 5 None]\<rparr>,
      empty_state\<lparr>logged := [(''create-namespace|CloudFormation'', ''AWS::IAM::Role | CREATE_IN_PROGRESS'')]\<rparr>)"
proof -
  have "ResourceProperties (event ''A'' 5 None) = None \<or> ResourceProperties (event ''A'' 5 None) = Some []"
    by (simp add: event_def)
  from absent_payload_is_neutral [OF this, of "scripted accept_all [] []" "[]" empty_poller empty_state]
  show ?thesis
    by (simp add: empty_poller_def empty_state_def Logger_log_def template_str_def) (simp add: event_def)
qed

theorem unparsable_payload_ends_the_run:
  "thrown (createNamespace (scripted accept_all one_poll unparsable_payload) team_a empty_state)
     = Some SyntaxError"
  using team_a_valid
  by (simp add: run_defs publish_batch_def new_events_def accept_all_def one_poll_def
        unparsable_payload_def event_line_def resource_name_def event_def JSON_parse_not_json)

text \<open>
  C5. When the loop has ended and the description of the stack read after it has a
  status other than \<open>CREATE_COMPLETE\<close>, \<open>createNamespace\<close> throws the error with the fixed
  message \<open>Unexpected AWS CloudFormation stack creation result.\<close>, which does not name
  the status. It ends in the state the loop has left plus that one \<open>describeStacks\<close>
  request: no output is read, no further request is made and nothing is added to the
  revert stack.
\<close>

theorem unconverged_stack_throws_fixed_error:
  assumes "createStack E args s = (Inr StackName, s1)"
    and "poll_loop E StackName (describeStacks_replies E) (describeStackEvents_replies E)
           \<lparr>publishedEventIds = [], surfaced = []\<rparr> s1 = Some (Inr (Inr (Some [st]) # rest), p, s2)"
    and "StackStatus st \<noteq> ''CREATE_COMPLETE''"
  shows "createNamespace E args s =
           Some (Inl (Error ''Unexpected AWS CloudFormation stack creation result.''),
                 s2\<lparr>calls := calls s2 @ [DescribeStacks StackName]\<rparr>)"
  using assms by (simp add: createNamespace_def stackOutputs_def describeStack_def andThen_def Let_def)

theorem unconverged_stack_throws_fixed_error_witness:
  "thrown (createNamespace (scripted accept_all rolled_back []) team_a empty_state) =
     Some (Error ''Unexpected AWS CloudFormation stack creation result.'') \<and>
   calls (after_run (createNamespace (scripted accept_all rolled_back []) team_a empty_state) empty_state) =
     [MakeDir ''./namespaces/team-a'', CreateStack ''team-a-namespace'' ''team-a'',
      DescribeStacks ''team-a-namespace'', DescribeStacks ''team-a-namespace''] \<and>
   revertStack (after_run (createNamespace (scripted accept_all rolled_back []) team_a empty_state) empty_state) =
     [RemoveStack ''team-a-namespace'']"
proof -
  let ?E = "scripted accept_all rolled_back []"
  let ?st = "\<lparr>StackStatus = ''ROLLBACK_COMPLETE'', Outputs = None\<rparr>"
  let ?s1 = "snd (createStack ?E team_a empty_state)"
  let ?s2 = "?s1\<lparr>calls := calls ?s1 @ [DescribeStacks ''team-a-namespace'']\<rparr>"
  have "fst (createStack ?E team_a empty_state) = Inr ''team-a-namespace''"
    using team_a_valid
    by (simp add: createStack_def scripted_def team_a_def andThen_def perform_def accept_all_def Let_def)
  then have c: "createStack ?E team_a empty_state = (Inr ''team-a-namespace'', ?s1)"
    by (simp add: prod_eq_iff)
  have s1: "calls ?s1 = [MakeDir ''./namespaces/team-a'', CreateStack ''team-a-namespace'' ''team-a'']"
    "revertStack ?s1 = [RemoveStack ''team-a-namespace'']"
    using team_a_valid
    by (simp_all add: createStack_def scripted_def team_a_def empty_state_def andThen_def perform_def
          accept_all_def accept_def add_def Logger_log_def Let_def)
  have replies: "describeStacks_replies ?E = Inr (Some [?st]) # [Inr (Some [?st])]"
    by (simp add: scripted_def rolled_back_def stack_in_def)
  have pl: "poll_loop ?E ''team-a-namespace'' (describeStacks_replies ?E) (describeStackEvents_replies ?E)
              \<lparr>publishedEventIds = [], surfaced = []\<rparr> ?s1 =
            Some (Inr (Inr (Some [?st]) # []), \<lparr>publishedEventIds = [], surfaced = []\<rparr>, ?s2)"
    unfolding replies by (rule poll_loop_done) simp
  have st: "StackStatus ?st \<noteq> ''CREATE_COMPLETE''" by simp
  from unconverged_stack_throws_fixed_error [OF c pl st] s1
  show ?thesis by (simp add: thrown_def after_run_def)
qed

theorem error_does_not_name_the_status:
  "thrown (createNamespace (scripted accept_all rolled_back []) team_a empty_state) =
     Some (Error ''Unexpected AWS CloudFormation stack creation result.'') \<and>
   \<not> sublist ''ROLLBACK_COMPLETE'' ''Unexpected AWS CloudFormation stack creation result.''"
proof -
  have "thrown (createNamespace (scripted accept_all rolled_back []) team_a empty_state) =
     Some (Error ''Unexpected AWS CloudFormation stack creation result.'')"
    using team_a_valid by (simp add: run_defs accept_all_def rolled_back_def)
  moreover have "\<not> sublist ''ROLLBACK_COMPLETE'' ''Unexpected AWS CloudFormation stack creation result.''"
    by code_simp
  ultimately show ?thesis by blast
qed

text \<open>
  C6. In every run of \<open>createNamespace\<close> that ends, by returning or by throwing at any
  request, and in every run of the nested \<open>createKubernetesNamespaceUser\<close>, the closures
  added to the revert stack are, one for one and in the same order, those that undo the
  changing requests the remote systems have accepted during the run. Since a run can be
  made to stop at each of its requests, this holds between any two of them: a closure is
  added only once its request has been accepted, and before the next request is made.
\<close>

theorem revert_stack_mirrors_effects:
  "(createNamespace E args s = Some (r, s') \<longrightarrow> mirrors s s') \<and>
   (createKubernetesNamespaceUser E uargs s = (r, s') \<longrightarrow> mirrors s s')"
  using createNamespace_advances [of E args s r s'] user_advances [of E uargs s r s']
  by (simp add: advances_def)

theorem revert_stack_mirrors_effects_witness:
  "thrown (createNamespace (scripted (reject_binding_of ''team-a-deployments-role-binding'') [converged, converged] [])
             team_a empty_state) = Some (Rejected ''Conflict'') \<and>
   revertStack (after_run (createNamespace (scripted (reject_binding_of ''team-a-deployments-role-binding'')
                                              [converged, converged] []) team_a empty_state) empty_state) =
     [RemoveStack ''team-a-namespace'', RemoveNamespace ''team-a'',
      RemoveRole ''team-a-admin-c1'' ''team-a-admin-role'' ''team-a'',
      RemoveRoleBinding ''team-a-admin-c1'' ''team-a-admin-role-binding'' ''team-a'',
      RemoveMapRole ''team-a-admin-c1-k8s-role'',
      RemoveRole ''team-a-deployments-c1'' ''team-a-deployments-role'' ''team-a''] \<and>
   mirrors empty_state
     (after_run (createNamespace (scripted (reject_binding_of ''team-a-deployments-role-binding'')
                                    [converged, converged] []) team_a empty_state) empty_state)"
proof -
  let ?run = "createNamespace (scripted (reject_binding_of ''team-a-deployments-role-binding'')
                                 [converged, converged] []) team_a empty_state"
  have t: "thrown ?run = Some (Rejected ''Conflict'')"
    using team_a_valid by (simp add: run_defs reject_binding_of_def)
  have k: "revertStack (after_run ?run empty_state) =
     [RemoveStack ''team-a-namespace'', RemoveNamespace ''team-a'',
      RemoveRole ''team-a-admin-c1'' ''team-a-admin-role'' ''team-a'',
      RemoveRoleBinding ''team-a-admin-c1'' ''team-a-admin-role-binding'' ''team-a'',
      RemoveMapRole ''team-a-admin-c1-k8s-role'',
      RemoveRole ''team-a-deployments-c1'' ''team-a-deployments-role'' ''team-a'']"
    using team_a_valid by (simp add: run_defs reject_binding_of_def)
  from t obtain r s' where run: "?run = Some (r, s')"
    by (cases ?run) (auto simp: thrown_def)
  from revert_stack_mirrors_effects [of _ team_a empty_state r s'] run
  have "mirrors empty_state s'" by blast
  with run have "mirrors empty_state (after_run ?run empty_state)" by (simp add: after_run_def)
  with t k show ?thesis by blast
qed

text \<open>
  C7. When no single answer of \<open>describeStackEvents\<close> lists an event id twice, a run of
  the polling loop, over any number of polls and however the answers overlap, surfaces
  every event id at most once. (The ids already published are filtered out before the
  events of an answer are gone through, so an id that one answer lists twice is surfaced
  twice.)
\<close>

theorem no_event_id_surfaced_twice:
  assumes "list_all no_repeated_id evs"
    and "poll_loop E n ds evs \<lparr>publishedEventIds = [], surfaced = []\<rparr> s = Some (r, p, s')"
  shows "distinct (map EventId (surfaced p))"
proof -
  have "distinct (publishedEventIds p) \<and> prefix (map EventId (surfaced p)) (publishedEventIds p)"
    by (rule poll_loop_tidy [OF assms(1) _ _ assms(2)]) simp_all
  then show ?thesis by (auto simp: prefix_def)
qed

theorem no_event_id_surfaced_twice_witness:
  "list_all no_repeated_id late_older_event \<and>
   map EventId (observed (poll_loop (scripted accept_all two_polls late_older_event) ''team-a-namespace''
                            two_polls late_older_event \<lparr>publishedEventIds = [], surfaced = []\<rparr> empty_state))
     = [''B'', ''A''] \<and>
   distinct (map EventId (observed (poll_loop (scripted accept_all two_polls late_older_event) ''team-a-namespace''
                            two_polls late_older_event \<lparr>publishedEventIds = [], surfaced = []\<rparr> empty_state)))"
proof -
  let ?run = "poll_loop (scripted accept_all two_polls late_older_event) ''team-a-namespace''
                two_polls late_older_event \<lparr>publishedEventIds = [], surfaced = []\<rparr> empty_state"
  have h: "list_all no_repeated_id late_older_event"
    by (simp add: late_older_event_def no_repeated_id_def event_def)
  have ids: "map EventId (observed ?run) = [''B'', ''A'']"
    by (simp add: poll_defs two_polls_def late_older_event_def) (simp add: event_def)
  then obtain r p s' where run: "?run = Some (r, p, s')"
    by (cases ?run) (auto simp: observed_def)
  from no_event_id_surfaced_twice [OF h run] run
  have "distinct (map EventId (observed ?run))" by (simp add: observed_def)
  with h ids show ?thesis by blast
qed

theorem event_listed_twice_is_surfaced_twice:
  "map EventId (observed (poll_loop (scripted accept_all one_poll listed_twice) ''team-a-namespace''
                            one_poll listed_twice empty_poller empty_state)) = [''A'', ''A'']"
  by (simp add: poll_defs one_poll_def listed_twice_def) (simp add: event_def)

text \<open>
  C8. When the closure that removes a mapping entry runs and succeeds, on a document in
  which exactly one entry (at any position \<open>i\<close>) has the closure's role identifier as
  its \<open>rolearn\<close>, the document written back is the one read without that entry: the
  other entries remain, in their order. With 3 entries, 2 remain.
\<close>

theorem removal_takes_out_the_matching_entry:
  assumes "i < length doc"
    and "rolearn (doc ! i) = Some arn"
    and "\<forall>j < length doc. j \<noteq> i \<longrightarrow> rolearn (doc ! j) \<noteq> Some arn"
    and "mapRoles s = doc"
    and "run_compensation E (RemoveMapRole arn) s = (Inr (), s')"
  shows "mapRoles s' = take i doc @ drop (Suc i) doc \<and> length (mapRoles s') = length doc - 1"
proof -
  have "mapRoles s' = filter (\<lambda>role. rolearn role \<noteq> Some arn) doc"
    using assms(4,5)
    by (auto simp: readMapRoles_def replaceMapRoles_def andThen_def perform_def accept_def
          split: option.splits)
  moreover have "filter (\<lambda>role. rolearn role \<noteq> Some arn) doc = take i doc @ drop (Suc i) doc"
  proof -
    have d: "doc = take i doc @ doc ! i # drop (Suc i) doc"
      using assms(1) by (rule id_take_nth_drop)
    have a: "\<forall>x \<in> set (take i doc). rolearn x \<noteq> Some arn"
    proof
      fix x assume "x \<in> set (take i doc)"
      then obtain j where "j < length (take i doc)" "x = take i doc ! j" by (auto simp: in_set_conv_nth)
      then have "j < length doc" "j \<noteq> i" "x = doc ! j" using assms(1) by auto
      with assms(3) show "rolearn x \<noteq> Some arn" by blast
    qed
    have b: "\<forall>x \<in> set (drop (Suc i) doc). rolearn x \<noteq> Some arn"
    proof
      fix x assume "x \<in> set (drop (Suc i) doc)"
      then obtain j where "j < length (drop (Suc i) doc)" "x = drop (Suc i) doc ! j" by (auto simp: in_set_conv_nth)
      then have "Suc i + j < length doc" "Suc i + j \<noteq> i" "x = doc ! (Suc i + j)" by auto
      with assms(3) show "rolearn x \<noteq> Some arn" by blast
    qed
    have "filter (\<lambda>role. rolearn role \<noteq> Some arn) doc =
            filter (\<lambda>role. rolearn role \<noteq> Some arn) (take i doc @ doc ! i # drop (Suc i) doc)"
      using d by simp
    also have "\<dots> = take i doc @ drop (Suc i) doc"
      using a b assms(2) by (simp add: filter_id_conv)
    finally show ?thesis .
  qed
  ultimately show ?thesis using assms(1) by simp
qed

theorem removal_takes_out_the_matching_entry_witness:
  "mapRoles (snd (run_compensation (scripted accept_all [] []) (RemoveMapRole ''team-a-admin-c1-k8s-role'')
                    (empty_state\<lparr>mapRoles := three_entries\<rparr>))) =
     [\<lparr>groups = [''system:masters''], rolearn = Some ''arn:aws:iam::1:role/ops'', username = Some ''ops''\<rparr>,
      \<lparr>groups = [''team-b-admin-group''], rolearn = Some ''team-b-admin-c1-k8s-role'',
       username = Some ''team-b-admin''\<rparr>] \<and>
   length three_entries = 3 \<and>
   length (mapRoles (snd (run_compensation (scripted accept_all [] []) (RemoveMapRole ''team-a-admin-c1-k8s-role'')
                    (empty_state\<lparr>mapRoles := three_entries\<rparr>)))) = 2"
proof -
  let ?s = "empty_state\<lparr>mapRoles := three_entries\<rparr>"
  let ?run = "run_compensation (scripted accept_all [] []) (RemoveMapRole ''team-a-admin-c1-k8s-role'') ?s"
  have h1: "(1::nat) < length three_entries" by (simp add: three_entries_def)
  have h2: "rolearn (three_entries ! 1) = Some ''team-a-admin-c1-k8s-role''" by (simp add: three_entries_def)
  have h3: "\<forall>j < length three_entries. j \<noteq> 1 \<longrightarrow> rolearn (three_entries ! j) \<noteq> Some ''team-a-admin-c1-k8s-role''"
    by (simp add: three_entries_def less_Suc_eq)
  have h4: "mapRoles ?s = three_entries" by simp
  have h5: "?run = (Inr (), snd ?run)"
    by (simp add: readMapRoles_def replaceMapRoles_def andThen_def perform_def scripted_def accept_all_def)
  from removal_takes_out_the_matching_entry [OF h1 h2 h3 h4 h5]
  show ?thesis by (simp add: three_entries_def)
qed

text \<open>
  C9. A namespace name that violates the pattern makes \<open>createNamespace\<close> throw the
  validation error at once: the state is the one it was given, so no request has been
  made and nothing has been added to the revert stack.
\<close>

theorem invalid_name_throws_before_any_call:
  assumes "namespace_name_invalid (namespaceName args)"
  shows "createNamespace E args s =
           Some (Inl (Error (''Namespace name is invalid: '' @ namespaceName args)), s)"
  using assms by (rule createNamespace_invalid)

theorem invalid_name_throws_before_any_call_witness:
  "namespace_name_invalid ''team_a'' \<and>
   createNamespace (scripted accept_all [converged, converged] [])
     \<lparr>clusterName = ''c1'', namespaceName = ''team_a''\<rparr> empty_state =
   Some (Inl (Error ''Namespace name is invalid: team_a''), empty_state)"
proof -
  have h: "namespace_name_invalid (namespaceName \<lparr>clusterName = ''c1'', namespaceName = ''team_a''\<rparr>)"
    by (simp add: namespace_name_invalid_iff name_matches_ignoring_case_def ascii_letter_def ascii_digit_def)
  from invalid_name_throws_before_any_call [OF h] h show ?thesis by simp
qed

text \<open>
  C10. The validation of the namespace name ignores case. \<open>createNamespace\<close> stops with
  the validation error, having done nothing, exactly when the name is not a letter of
  either case followed by letters of either case, digits and hyphens; and the name
  \<open>Team-A\<close> passes: with collaborators that accept every request the run goes on to
  create the stack \<open>Team-A-namespace\<close> and ends without an error.
\<close>

theorem validation_ignores_case:
  "((createNamespace E args s =
       Some (Inl (Error (''Namespace name is invalid: '' @ namespaceName args)), s))
      = (\<not> name_matches_ignoring_case (namespaceName args))) \<and>
   name_matches_ignoring_case ''Team-A'' \<and>
   thrown (createNamespace (scripted accept_all [converged, converged] [])
             \<lparr>clusterName = ''c1'', namespaceName = ''Team-A''\<rparr> empty_state) = None \<and>
   CreateStack ''Team-A-namespace'' ''Team-A''
     \<in> set (calls (after_run (createNamespace (scripted accept_all [converged, converged] [])
                                \<lparr>clusterName = ''c1'', namespaceName = ''Team-A''\<rparr> empty_state) empty_state))"
proof -
  have iff: "(createNamespace E args s =
       Some (Inl (Error (''Namespace name is invalid: '' @ namespaceName args)), s))
      = (\<not> name_matches_ignoring_case (namespaceName args))"
  proof (cases "namespace_name_invalid (namespaceName args)")
    case True
    then show ?thesis using createNamespace_invalid [OF True, of E s]
      by (simp add: namespace_name_invalid_iff)
  next
    case False
    have "createNamespace E args s \<noteq>
            Some (Inl (Error (''Namespace name is invalid: '' @ namespaceName args)), s)"
    proof
      assume "createNamespace E args s =
                Some (Inl (Error (''Namespace name is invalid: '' @ namespaceName args)), s)"
      from createNamespace_valid_calls [OF False this]
      show False by (simp add: prefix_def)
    qed
    with False show ?thesis by (simp add: namespace_name_invalid_iff)
  qed
  let ?args = "\<lparr>clusterName = ''c1'', namespaceName = ''Team-A''\<rparr>"
  have "\<not> namespace_name_invalid (namespaceName ?args)"
    using Team_A_matches by (simp add: namespace_name_invalid_iff)
  from converged_run [OF this, of empty_state] obtain s' where
    "createNamespace (scripted accept_all [converged, converged] []) ?args empty_state = Some (Inr (), s')"
    "CreateStack ''Team-A-namespace'' ''Team-A'' \<in> set (calls s')"
    by auto
  then have "thrown (createNamespace (scripted accept_all [converged, converged] []) ?args empty_state) = None"
    "CreateStack ''Team-A-namespace'' ''Team-A''
       \<in> set (calls (after_run (createNamespace (scripted accept_all [converged, converged] []) ?args empty_state) empty_state))"
    by (simp_all add: thrown_def after_run_def)
  with iff Team_A_matches show ?thesis by blast
qed

theorem validation_ignores_case_witness:
  "createNamespace (scripted accept_all [] []) \<lparr>clusterName = ''c1'', namespaceName = ''team a''\<rparr> empty_state =
     Some (Inl (Error ''Namespace name is invalid: team a''), empty_state)"
proof -
  have "\<not> name_matches_ignoring_case (namespaceName \<lparr>clusterName = ''c1'', namespaceName = ''team a''\<rparr>)"
    by (simp add: name_matches_ignoring_case_def ascii_letter_def ascii_digit_def)
  with validation_ignores_case [of "scripted accept_all [] []" "\<lparr>clusterName = ''c1'', namespaceName = ''team a''\<rparr>" empty_state]
  show ?thesis by simp
qed

end
